(* ===== verification/Smtp_Prelude.thy ===== *)
theory Smtp_Prelude
  imports Main "HOL-Library.Sublist" "HOL-Library.Word"
begin

text \<open>
  What every component shares: a Rust \<open>String\<close> or \<open>&str\<close> is modelled by the list of
  its UTF-8 bytes (a HOL \<open>char\<close> is a byte), the same type as a \<open>Vec<u8>\<close> or
  \<open>&[u8]\<close>, so that \<open>as_bytes\<close> is the identity. The theory holds the byte names,
  the search for the first CRLF of a text, and the functions of the Rust standard library the
  crate calls on strings: decimal and hexadecimal formatting, UTF-8 validation,
  \<open>split_whitespace\<close> and \<open>join\<close>.
\<close>

type_synonym byte = char
type_synonym u8 = "8 word"
type_synonym u16 = "16 word"

named_theorems smtp_simps \<open>characteristic equations of the components' operations\<close>

abbreviation CR :: byte where "CR \<equiv> CHR 0x0D"
abbreviation LF :: byte where "LF \<equiv> CHR 0x0A"
abbreviation SP :: byte where "SP \<equiv> CHR 0x20"
abbreviation DOT :: byte where "DOT \<equiv> CHR 0x2E"
abbreviation NUL :: byte where "NUL \<equiv> CHR 0x00"
abbreviation crlf :: string where "crlf \<equiv> [CR, LF]"

abbreviation byte_val :: "byte \<Rightarrow> nat" where "byte_val c \<equiv> of_char c"

section \<open>The first CRLF of a text\<close>

fun has_crlf :: "string \<Rightarrow> bool" where
  "has_crlf (a # b # r) = ((a = CR \<and> b = LF) \<or> has_crlf (b # r))"
| "has_crlf _ = False"

lemma has_crlf_prefix: "has_crlf (a # r) \<longleftrightarrow> prefix crlf (a # r) \<or> has_crlf r"
  by (cases r) auto

lemma has_crlf_iff: "has_crlf s \<longleftrightarrow> sublist crlf s"
  by (induction s) (auto simp: sublist_Cons_right has_crlf_prefix simp del: has_crlf.simps(1))

lemma has_crlf_append_crlf [simp]: "has_crlf (s @ CR # LF # t)"
  unfolding has_crlf_iff by (metis append_Cons append_Nil sublist_appendI)

lemma has_crlf_appendD: "\<not> has_crlf (s @ t) \<Longrightarrow> \<not> has_crlf s \<and> \<not> has_crlf t"
  unfolding has_crlf_iff by (auto simp: sublist_append)

lemma has_crlf_append:
  "has_crlf (s @ t) \<longleftrightarrow>
     has_crlf s \<or> has_crlf t \<or> (s \<noteq> [] \<and> t \<noteq> [] \<and> last s = CR \<and> hd t = LF)"
  by (induction s rule: has_crlf.induct; cases t) auto

lemma no_LF_no_crlf: "LF \<notin> set s \<Longrightarrow> \<not> has_crlf s"
  by (induction s rule: has_crlf.induct) auto

text \<open>
  A text that has a CRLF splits at the first one, and the split is unique.
\<close>

lemma has_crlf_split:
  "has_crlf s \<Longrightarrow> \<exists>l r. s = l @ CR # LF # r \<and> \<not> has_crlf l"
proof (induction s rule: has_crlf.induct)
  case (1 a b r)
  show ?case
  proof (cases "a = CR \<and> b = LF")
    case True
    then show ?thesis by (intro exI[of _ "[]"] exI[of _ r]) simp
  next
    case False
    with "1.prems" have "has_crlf (b # r)" by simp
    with False "1.IH" obtain l q where lq: "b # r = l @ CR # LF # q" "\<not> has_crlf l" by blast
    have "\<not> has_crlf (a # l)"
      using lq False by (cases l) auto
    with lq(1) show ?thesis by (intro exI[of _ "a # l"] exI[of _ q]) simp
  qed
qed auto

lemma first_crlf_at:
  assumes "\<not> has_crlf l" and "k < length l"
  shows "\<not> prefix crlf (drop k (l @ CR # LF # r))"
proof
  assume "prefix crlf (drop k (l @ CR # LF # r))"
  then have "prefix crlf (drop k l @ CR # LF # r)" using assms(2) by simp
  moreover obtain a m where m: "drop k l = a # m"
    using assms(2) by (cases "drop k l") auto
  ultimately have "prefix crlf (a # m)"
    by (cases m) auto
  then have "sublist crlf (drop k l)" using m by auto
  then have "sublist crlf l" using sublist_drop[of k l] by (meson sublist_order.order_trans)
  with assms(1) show False by (simp add: has_crlf_iff)
qed

lemma crlf_split_unique:
  assumes "l @ CR # LF # r = l' @ CR # LF # r'" and "\<not> has_crlf l" and "\<not> has_crlf l'"
  shows "l = l' \<and> r = r'"
proof -
  have "\<not> length l < length l'"
    using first_crlf_at[OF assms(3), of "length l" r'] assms(1)[symmetric] by auto
  moreover have "\<not> length l' < length l"
    using first_crlf_at[OF assms(2), of "length l'" r] assms(1) by auto
  ultimately have "length l = length l'" by simp
  with assms(1) show ?thesis by simp
qed

text \<open>
  The peer's view of a text: the lines ended by a CRLF, and what follows the last one.
\<close>

fun crlf_lines_acc :: "string \<Rightarrow> string \<Rightarrow> string list \<times> string" where
  "crlf_lines_acc acc (a # b # r) =
     (if a = CR \<and> b = LF then (case crlf_lines_acc [] r of (ls, q) \<Rightarrow> (acc # ls, q))
      else crlf_lines_acc (acc @ [a]) (b # r))"
| "crlf_lines_acc acc s = ([], acc @ s)"

definition crlf_lines :: "string \<Rightarrow> string list \<times> string" where
  "crlf_lines s = crlf_lines_acc [] s"

lemma crlf_lines_Nil [simp]: "crlf_lines [] = ([], [])"
  by (simp add: crlf_lines_def)

lemma crlf_lines_acc_line:
  "\<not> has_crlf l \<Longrightarrow> crlf_lines_acc acc (l @ CR # LF # r) =
     (case crlf_lines_acc [] r of (ls, q) \<Rightarrow> ((acc @ l) # ls, q))"
proof (induction l arbitrary: acc)
  case Nil
  then show ?case by simp
next
  case (Cons a l)
  from Cons.prems have "\<not> has_crlf l" by (cases l) auto
  then have IH: "crlf_lines_acc (acc @ [a]) (l @ CR # LF # r) =
      (case crlf_lines_acc [] r of (ls, q) \<Rightarrow> ((acc @ a # l) # ls, q))"
    using Cons.IH[of "acc @ [a]"] by simp
  obtain b t where bt: "l @ CR # LF # r = b # t" "\<not> (a = CR \<and> b = LF)"
    using Cons.prems by (cases l) auto
  then have "crlf_lines_acc acc (a # b # t) = crlf_lines_acc (acc @ [a]) (b # t)"
    by (simp only: crlf_lines_acc.simps if_False)
  then show ?case using IH bt(1) by simp
qed

lemma crlf_lines_acc_no_crlf: "\<not> has_crlf s \<Longrightarrow> crlf_lines_acc acc s = ([], acc @ s)"
  by (induction acc s rule: crlf_lines_acc.induct) auto

lemma crlf_lines_no_crlf: "\<not> has_crlf s \<Longrightarrow> crlf_lines s = ([], s)"
  by (simp add: crlf_lines_def crlf_lines_acc_no_crlf)

lemma crlf_lines_line:
  "\<not> has_crlf l \<Longrightarrow> crlf_lines (l @ CR # LF # r) = (case crlf_lines r of (ls, q) \<Rightarrow> (l # ls, q))"
  by (simp add: crlf_lines_def crlf_lines_acc_line)

lemma crlf_lines_concat:
  "\<forall>l \<in> set ls. \<not> has_crlf l \<Longrightarrow>
   crlf_lines (concat (map (\<lambda>l. l @ crlf) ls) @ r) = (case crlf_lines r of (ms, q) \<Rightarrow> (ls @ ms, q))"
  by (induction ls) (auto simp: crlf_lines_line split: prod.splits)

lemma has_crlf_no_CR: "CR \<notin> set v \<Longrightarrow> has_crlf (v @ s) \<longleftrightarrow> has_crlf s"
proof (induction v)
  case (Cons c v)
  then show ?case by (cases "v @ s") auto
qed simp

lemma crlf_lines_acc_no_inner:
  "\<not> has_crlf (acc @ [hd (s @ [LF])]) \<or> s = [] \<Longrightarrow> \<not> has_crlf acc \<Longrightarrow>
   l \<in> set (fst (crlf_lines_acc acc s)) \<Longrightarrow> \<not> has_crlf l"
  by (induction acc s rule: crlf_lines_acc.induct) (auto simp: has_crlf_append split: if_splits prod.splits)

lemma crlf_lines_no_inner: "l \<in> set (fst (crlf_lines s)) \<Longrightarrow> \<not> has_crlf l"
  unfolding crlf_lines_def by (erule crlf_lines_acc_no_inner[rotated 2]) simp_all

lemma crlf_lines_crlf: "fst (crlf_lines (s @ crlf)) \<noteq> []"
proof (cases "has_crlf s")
  case True
  then obtain l r where "s = l @ CR # LF # r" "\<not> has_crlf l" using has_crlf_split by blast
  then show ?thesis using crlf_lines_line[of l "r @ crlf"] by (simp split: prod.split)
next
  case False
  then show ?thesis using crlf_lines_line[of s "[]"] by simp
qed

lemma strict_prefix_append_same [simp]:
  "strict_prefix (xs @ ys) (xs @ zs) \<longleftrightarrow> strict_prefix ys zs"
  by (induction xs) auto

section \<open>Formatting of integers\<close>

definition digit_char :: "nat \<Rightarrow> char" where
  "digit_char n = (if n < 10 then char_of (48 + n) else char_of (55 + n))"

text \<open>\<open>{}\<close> of an unsigned integer.\<close>

fun dec_string :: "nat \<Rightarrow> string" where
  "dec_string n = (if n < 10 then [digit_char n] else dec_string (n div 10) @ [digit_char (n mod 10)])"

text \<open>\<open>{:X}\<close> and \<open>{:x}\<close> of an unsigned integer: no leading zeros, no prefix.\<close>

fun hex_upper :: "nat \<Rightarrow> string" where
  "hex_upper n = (if n < 16 then [digit_char n] else hex_upper (n div 16) @ [digit_char (n mod 16)])"

declare dec_string.simps [simp del] hex_upper.simps [simp del]

text \<open>Reading a decimal number back, which makes the formatting injective.\<close>

definition dec_value :: "string \<Rightarrow> nat" where
  "dec_value s = foldl (\<lambda>v c. 10 * v + (byte_val c - 48)) 0 s"

lemma byte_val_digit_char: "n < 10 \<Longrightarrow> byte_val (digit_char n) = 48 + n"
  by (simp add: digit_char_def)

lemma dec_value_dec_string: "dec_value (dec_string n) = n"
proof (induction n rule: dec_string.induct)
  case (1 n)
  show ?case
  proof (cases "n < 10")
    case True
    then show ?thesis by (simp add: dec_string.simps dec_value_def byte_val_digit_char)
  next
    case False
    then have "dec_string n = dec_string (n div 10) @ [digit_char (n mod 10)]"
      by (subst dec_string.simps) simp
    moreover have "dec_value (dec_string (n div 10)) = n div 10" using 1 False by simp
    ultimately show ?thesis by (simp add: dec_value_def byte_val_digit_char)
  qed
qed

lemma dec_string_inject: "dec_string m = dec_string n \<longleftrightarrow> m = n"
  by (metis dec_value_dec_string)

lemma dec_string_digits: "\<forall>c \<in> set (dec_string n). 48 \<le> byte_val c \<and> byte_val c \<le> (57 :: nat)"
proof (induction n rule: dec_string.induct)
  case (1 n)
  then show ?case by (subst dec_string.simps) (auto simp: byte_val_digit_char)
qed

lemma hex_upper_digits: "\<forall>c \<in> set (hex_upper n). \<exists>d < 16. c = digit_char d"
proof (induction n rule: hex_upper.induct)
  case (1 n)
  show ?case
  proof (cases "n < 16")
    case True
    then show ?thesis by (subst hex_upper.simps) auto
  next
    case False
    then have "hex_upper n = hex_upper (n div 16) @ [digit_char (n mod 16)]"
      by (subst hex_upper.simps) simp
    moreover have "\<exists>d < 16. digit_char (n mod 16) = digit_char d"
      by (rule exI[of _ "n mod 16"]) simp
    ultimately show ?thesis using 1 False by auto
  qed
qed

section \<open>UTF-8 validation (the check of \<open>String::from_utf8\<close> and of \<open>read_line\<close>)\<close>

definition utf8_cont :: "byte \<Rightarrow> bool" where
  "utf8_cont c \<longleftrightarrow> 0x80 \<le> byte_val c \<and> byte_val c \<le> (0xBF :: nat)"

text \<open>The number of continuation bytes after a lead byte, and the range of the first of them.\<close>

definition utf8_lead :: "byte \<Rightarrow> (nat \<times> nat \<times> nat) option" where
  "utf8_lead c = (let x = byte_val c in
     if x < 0x80 then Some (0, 0x80, 0xBF)
     else if 0xC2 \<le> x \<and> x \<le> 0xDF then Some (1, 0x80, 0xBF)
     else if x = 0xE0 then Some (2, 0xA0, 0xBF)
     else if x = 0xED then Some (2, 0x80, 0x9F)
     else if 0xE1 \<le> x \<and> x \<le> 0xEF then Some (2, 0x80, 0xBF)
     else if x = 0xF0 then Some (3, 0x90, 0xBF)
     else if 0xF1 \<le> x \<and> x \<le> 0xF3 then Some (3, 0x80, 0xBF)
     else if x = 0xF4 then Some (3, 0x80, 0x8F)
     else None)"

fun utf8_valid :: "byte list \<Rightarrow> bool" where
  "utf8_valid [] = True"
| "utf8_valid (c # cs) =
     (case utf8_lead c of
        None \<Rightarrow> False
      | Some (n, lo, hi) \<Rightarrow>
          n \<le> length cs \<and>
          (0 < n \<longrightarrow> lo \<le> byte_val (hd cs) \<and> byte_val (hd cs) \<le> hi) \<and>
          (\<forall>d \<in> set (take n cs). utf8_cont d) \<and>
          utf8_valid (drop n cs))"

definition is_ascii :: "byte \<Rightarrow> bool" where
  "is_ascii c \<longleftrightarrow> byte_val c < (0x80 :: nat)"

lemma utf8_lead_ascii: "is_ascii c \<Longrightarrow> utf8_lead c = Some (0, 0x80, 0xBF)"
  by (simp add: is_ascii_def utf8_lead_def)

lemma utf8_valid_ascii: "\<forall>c \<in> set s. is_ascii c \<Longrightarrow> utf8_valid s"
  by (induction s) (auto simp: utf8_lead_ascii)

section \<open>Whitespace and words\<close>

text \<open>
  \<open>str::split_whitespace\<close> splits at runs of characters with the Unicode property
  White\_Space. \<open>ws_len s\<close> is the number of bytes of the whitespace character \<open>s\<close>
  starts with, 0 if it starts with none: U+0009..U+000D, U+0020, U+0085, U+00A0, U+1680,
  U+2000..U+200A, U+2028, U+2029, U+202F, U+205F and U+3000. None of the lead bytes involved is a
  continuation byte, so looking at every byte position finds the characters of valid UTF-8.
\<close>

definition ws_len :: "string \<Rightarrow> nat" where
  "ws_len s = (case s of
      [] \<Rightarrow> 0
    | a # r \<Rightarrow>
       (let x = byte_val a :: nat in
        if (0x09 \<le> x \<and> x \<le> 0x0D) \<or> x = 0x20 then 1
        else case r of [] \<Rightarrow> 0
        | b # q \<Rightarrow>
          (let y = byte_val b :: nat in
           if x = 0xC2 \<and> (y = 0x85 \<or> y = 0xA0) then 2
           else case q of [] \<Rightarrow> 0
           | c # _ \<Rightarrow>
             (let z = byte_val c :: nat in
              if (x = 0xE1 \<and> y = 0x9A \<and> z = 0x80)
               \<or> (x = 0xE2 \<and> y = 0x80 \<and>
                   ((0x80 \<le> z \<and> z \<le> 0x8A) \<or> z = 0xA8 \<or> z = 0xA9 \<or> z = 0xAF))
               \<or> (x = 0xE2 \<and> y = 0x81 \<and> z = 0x9F)
               \<or> (x = 0xE3 \<and> y = 0x80 \<and> z = 0x80)
              then 3 else 0))))"

text \<open>
  The words of a text; \<open>acc\<close> is the word being read. A word is emitted when it is not empty.
\<close>

definition emit :: "string \<Rightarrow> string list \<Rightarrow> string list" where
  "emit acc ws = (if acc = [] then ws else acc # ws)"

function words_acc :: "string \<Rightarrow> string \<Rightarrow> string list" where
  "words_acc acc [] = emit acc []"
| "words_acc acc (a # r) =
     (if ws_len (a # r) = 0 then words_acc (acc @ [a]) r
      else emit acc (words_acc [] (drop (ws_len (a # r)) (a # r))))"
  by pat_completeness auto
termination
  by (relation "measure (\<lambda>(acc, s). length s)") auto

definition split_whitespace :: "string \<Rightarrow> string list" where
  "split_whitespace s = words_acc [] s"

lemma emit_no_empty: "[] \<notin> set ws \<Longrightarrow> [] \<notin> set (emit acc ws)"
  by (simp add: emit_def)

lemma words_acc_no_empty: "[] \<notin> set (words_acc acc s)"
  by (induction acc s rule: words_acc.induct) (auto simp: emit_def)

lemma split_whitespace_no_empty [simp]: "[] \<notin> set (split_whitespace s)"
  by (simp add: split_whitespace_def words_acc_no_empty)

lemma split_whitespace_Nil [simp]: "split_whitespace [] = []"
  by (simp add: split_whitespace_def emit_def)

text \<open>A text of printable ASCII characters only is one word; words are separated by spaces.\<close>

definition graphic :: "byte \<Rightarrow> bool" where
  "graphic c \<longleftrightarrow> 0x21 \<le> byte_val c \<and> byte_val c < (0x7F :: nat)"

lemma ws_len_graphic: "graphic c \<Longrightarrow> ws_len (c # s) = 0"
  by (auto simp: ws_len_def graphic_def Let_def split: list.splits)

lemma ws_len_SP: "ws_len (SP # s) = 1"
  by (simp add: ws_len_def)

lemma words_acc_graphic:
  "\<forall>c \<in> set w. graphic c \<Longrightarrow> words_acc acc (w @ s) = words_acc (acc @ w) s"
  by (induction w arbitrary: acc) (auto simp: ws_len_graphic)

lemma split_whitespace_word:
  assumes "\<forall>c \<in> set w. graphic c" and "w \<noteq> []"
  shows "split_whitespace (w @ SP # s) = w # split_whitespace s"
  using assms by (simp add: split_whitespace_def words_acc_graphic ws_len_SP emit_def)

lemma split_whitespace_last_word:
  assumes "\<forall>c \<in> set w. graphic c" and "w \<noteq> []"
  shows "split_whitespace w = [w]"
  using words_acc_graphic[of w "[]" "[]"] assms by (simp add: split_whitespace_def emit_def)

text \<open>\<open>slice::join\<close> on strings.\<close>

fun join :: "string \<Rightarrow> string list \<Rightarrow> string" where
  "join sep [] = []"
| "join sep [x] = x"
| "join sep (x # y # xs) = x @ sep @ join sep (y # xs)"

end
