(* ===== verification/Nom.thy ===== *)
theory Nom
  imports Smtp_Prelude
begin

text \<open>
  The interface of the parser library \<open>nom\<close> (version 7), a dependency whose code is not part
  of the repository. The types are those the crate names (\<open>IResult\<close>, \<open>nom::Err\<close>,
  \<open>nom::error::Error\<close>, \<open>ErrorKind\<close>); the combinators are parameters of the model.
  Their documented behaviour is stated as one predicate per combinator, polymorphic in the
  results, so that the theory of responses can ask for it at each type it uses. The last section
  gives executable combinators that satisfy every one of these laws.
\<close>

section \<open>Types\<close>

text \<open>\<open>nom::Needed\<close>: what is known of the missing input.\<close>

datatype needed = Unknown | Size nat

text \<open>
  \<open>nom::error::ErrorKind\<close>: the kinds the combinators below can report. The library has more;
  the crate only copies the kind from one error value to another.
\<close>

datatype error_kind = Tag | Alt | Many0 | TakeUntil | Complete | Not | Eof | OtherKind nat

record nom_error =
  input :: string
  code_kind :: error_kind

datatype nom_err = Incomplete needed | Error nom_error | Failure nom_error

text \<open>\<open>IResult<&str, O>\<close>: an error, or the rest of the input and the value parsed.\<close>

type_synonym 'a iresult = "nom_err + string \<times> 'a"
type_synonym 'a parser = "string \<Rightarrow> 'a iresult"

section \<open>The documented behaviour of the combinators\<close>

text \<open>
  \<open>bytes::streaming::tag\<close>: the pattern is consumed and returned; if the input is a proper
  prefix of it, more is needed; otherwise the kind \<open>Tag\<close> is reported at the input.
\<close>

definition tag_law :: "(string \<Rightarrow> string parser) \<Rightarrow> bool" where
  "tag_law tg \<longleftrightarrow>
     (\<forall>t r. tg t (t @ r) = Inr (r, t)) \<and>
     (\<forall>t i. strict_prefix i t \<longrightarrow> tg t i = Inl (Incomplete (Size (length t - length i)))) \<and>
     (\<forall>t i. \<not> prefix t i \<longrightarrow> \<not> prefix i t \<longrightarrow>
        tg t i = Inl (Error \<lparr>input = i, code_kind = Tag\<rparr>))"

text \<open>
  \<open>bytes::streaming::take_until\<close>: the input up to the first occurrence of the pattern, which
  is not consumed; more is needed while the pattern does not occur.
\<close>

definition take_until_law :: "(string \<Rightarrow> string parser) \<Rightarrow> bool" where
  "take_until_law tu \<longleftrightarrow>
     (\<forall>t pre post. (\<forall>k < length pre. \<not> prefix t (drop k (pre @ t @ post))) \<longrightarrow>
        tu t (pre @ t @ post) = Inr (t @ post, pre)) \<and>
     (\<forall>t i. \<not> sublist t i \<longrightarrow> tu t i = Inl (Incomplete Unknown))"

text \<open>\<open>combinator::complete\<close>: \<open>Incomplete\<close> becomes an \<open>Error\<close> of kind \<open>Complete\<close>.\<close>

definition complete_law :: "('a parser \<Rightarrow> 'a parser) \<Rightarrow> bool" where
  "complete_law cp \<longleftrightarrow>
     (\<forall>p i. cp p i = (case p i of
         Inl (Incomplete n) \<Rightarrow> Inl (Error \<lparr>input = i, code_kind = Complete\<rparr>)
       | r \<Rightarrow> r))"

text \<open>\<open>combinator::map\<close>: applies a function to the value parsed.\<close>

definition map_law :: "('a parser \<Rightarrow> ('a \<Rightarrow> 'b) \<Rightarrow> 'b parser) \<Rightarrow> bool" where
  "map_law mp \<longleftrightarrow>
     (\<forall>p f i. mp p f i = (case p i of Inl e \<Rightarrow> Inl e | Inr (r, x) \<Rightarrow> Inr (r, f x)))"

text \<open>
  \<open>branch::alt\<close>: the first alternative that does not report an \<open>Error\<close>; if all do, the
  error of the last one. The tuple of alternatives is a list.
\<close>

definition alt_law :: "('a parser list \<Rightarrow> 'a parser) \<Rightarrow> bool" where
  "alt_law al \<longleftrightarrow>
     (\<forall>p i. al [p] i = p i) \<and>
     (\<forall>p q ps i. al (p # q # ps) i = (case p i of
         Inl (Error e) \<Rightarrow> al (q # ps) i
       | r \<Rightarrow> r))"

text \<open>\<open>sequence::preceded\<close>: both parsers in turn, the value of the second.\<close>

definition preceded_law :: "('a parser \<Rightarrow> 'b parser \<Rightarrow> 'b parser) \<Rightarrow> bool" where
  "preceded_law pr \<longleftrightarrow>
     (\<forall>p q i. pr p q i = (case p i of Inl e \<Rightarrow> Inl e | Inr (r, x) \<Rightarrow> q r))"

text \<open>\<open>sequence::tuple\<close> of two and of three parsers.\<close>

definition tuple2_law :: "('a parser \<Rightarrow> 'b parser \<Rightarrow> ('a \<times> 'b) parser) \<Rightarrow> bool" where
  "tuple2_law t2 \<longleftrightarrow>
     (\<forall>p q i. t2 p q i = (case p i of Inl e \<Rightarrow> Inl e | Inr (r, x) \<Rightarrow>
        (case q r of Inl e \<Rightarrow> Inl e | Inr (r', y) \<Rightarrow> Inr (r', x, y))))"

definition tuple3_law ::
  "('a parser \<Rightarrow> 'b parser \<Rightarrow> 'c parser \<Rightarrow> ('a \<times> 'b \<times> 'c) parser) \<Rightarrow> bool" where
  "tuple3_law t3 \<longleftrightarrow>
     (\<forall>p q s i. t3 p q s i = (case p i of Inl e \<Rightarrow> Inl e | Inr (r, x) \<Rightarrow>
        (case q r of Inl e \<Rightarrow> Inl e | Inr (r', y) \<Rightarrow>
          (case s r' of Inl e \<Rightarrow> Inl e | Inr (r'', z) \<Rightarrow> Inr (r'', x, y, z)))))"

text \<open>
  \<open>multi::many0\<close>: repeats a parser and gathers its values; stops at an \<open>Error\<close>, passes
  \<open>Incomplete\<close> and \<open>Failure\<close> on, and reports an error of kind \<open>Many0\<close> for a parser
  that succeeds without consuming input.
\<close>

definition many0_law :: "('a parser \<Rightarrow> 'a list parser) \<Rightarrow> bool" where
  "many0_law mn \<longleftrightarrow>
     (\<forall>p i e. p i = Inl (Error e) \<longrightarrow> mn p i = Inr (i, [])) \<and>
     (\<forall>p i n. p i = Inl (Incomplete n) \<longrightarrow> mn p i = Inl (Incomplete n)) \<and>
     (\<forall>p i e. p i = Inl (Failure e) \<longrightarrow> mn p i = Inl (Failure e)) \<and>
     (\<forall>p i r x. p i = Inr (r, x) \<longrightarrow> length r = length i \<longrightarrow>
        mn p i = Inl (Error \<lparr>input = i, code_kind = Many0\<rparr>)) \<and>
     (\<forall>p i r x. p i = Inr (r, x) \<longrightarrow> length r < length i \<longrightarrow>
        mn p i = (case mn p r of Inl e \<Rightarrow> Inl e | Inr (r', xs) \<Rightarrow> Inr (r', x # xs)))"

section \<open>Combinators that satisfy the laws\<close>

definition ref_tag :: "string \<Rightarrow> string parser" where
  "ref_tag t i =
     (if prefix t i then Inr (drop (length t) i, t)
      else if prefix i t then Inl (Incomplete (Size (length t - length i)))
      else Inl (Error \<lparr>input = i, code_kind = Tag\<rparr>))"

lemma ref_tag_law: "tag_law ref_tag"
  by (auto simp: tag_law_def ref_tag_def strict_prefix_def)

fun ref_take_until_acc :: "string \<Rightarrow> string \<Rightarrow> string parser" where
  "ref_take_until_acc t acc i =
     (if prefix t i then Inr (i, acc)
      else case i of [] \<Rightarrow> Inl (Incomplete Unknown)
           | c # r \<Rightarrow> ref_take_until_acc t (acc @ [c]) r)"

declare ref_take_until_acc.simps [simp del]

definition ref_take_until :: "string \<Rightarrow> string parser" where
  "ref_take_until t i = ref_take_until_acc t [] i"

lemma ref_take_until_found:
  "(\<forall>k < length pre. \<not> prefix t (drop k (pre @ t @ post))) \<Longrightarrow>
   ref_take_until_acc t acc (pre @ t @ post) = Inr (t @ post, acc @ pre)"
proof (induction pre arbitrary: acc)
  case Nil
  then show ?case by (simp add: ref_take_until_acc.simps)
next
  case (Cons c pre)
  have rest: "\<forall>k < length pre. \<not> prefix t (drop k (pre @ t @ post))"
  proof (intro allI impI)
    fix k assume "k < length pre"
    then show "\<not> prefix t (drop k (pre @ t @ post))"
      using Cons.prems[rule_format, of "Suc k"] by simp
  qed
  have "\<not> prefix t ((c # pre) @ t @ post)"
    using Cons.prems[rule_format, of 0] by simp
  with Cons.IH[OF rest] show ?case
    by (subst ref_take_until_acc.simps) simp
qed

lemma ref_take_until_missing:
  "\<not> sublist t i \<Longrightarrow> ref_take_until_acc t acc i = Inl (Incomplete Unknown)"
proof (induction i arbitrary: acc)
  case Nil
  then show ?case by (subst ref_take_until_acc.simps) auto
next
  case (Cons c r)
  then show ?case by (subst ref_take_until_acc.simps) (auto simp: sublist_Cons_right)
qed

lemma ref_take_until_law: "take_until_law ref_take_until"
  by (simp add: take_until_law_def ref_take_until_def ref_take_until_found
      ref_take_until_missing)

definition ref_complete :: "'a parser \<Rightarrow> 'a parser" where
  "ref_complete p i = (case p i of
       Inl (Incomplete n) \<Rightarrow> Inl (Error \<lparr>input = i, code_kind = Complete\<rparr>)
     | r \<Rightarrow> r)"

definition ref_map :: "'a parser \<Rightarrow> ('a \<Rightarrow> 'b) \<Rightarrow> 'b parser" where
  "ref_map p f i = (case p i of Inl e \<Rightarrow> Inl e | Inr (r, x) \<Rightarrow> Inr (r, f x))"

fun ref_alt :: "'a parser list \<Rightarrow> 'a parser" where
  "ref_alt [] i = Inl (Error \<lparr>input = i, code_kind = Alt\<rparr>)"
| "ref_alt [p] i = p i"
| "ref_alt (p # q # ps) i = (case p i of Inl (Error e) \<Rightarrow> ref_alt (q # ps) i | r \<Rightarrow> r)"

definition ref_preceded :: "'a parser \<Rightarrow> 'b parser \<Rightarrow> 'b parser" where
  "ref_preceded p q i = (case p i of Inl e \<Rightarrow> Inl e | Inr (r, x) \<Rightarrow> q r)"

definition ref_tuple2 :: "'a parser \<Rightarrow> 'b parser \<Rightarrow> ('a \<times> 'b) parser" where
  "ref_tuple2 p q i = (case p i of Inl e \<Rightarrow> Inl e | Inr (r, x) \<Rightarrow>
     (case q r of Inl e \<Rightarrow> Inl e | Inr (r', y) \<Rightarrow> Inr (r', x, y)))"

definition ref_tuple3 :: "'a parser \<Rightarrow> 'b parser \<Rightarrow> 'c parser \<Rightarrow> ('a \<times> 'b \<times> 'c) parser" where
  "ref_tuple3 p q s i = (case p i of Inl e \<Rightarrow> Inl e | Inr (r, x) \<Rightarrow>
     (case q r of Inl e \<Rightarrow> Inl e | Inr (r', y) \<Rightarrow>
       (case s r' of Inl e \<Rightarrow> Inl e | Inr (r'', z) \<Rightarrow> Inr (r'', x, y, z))))"

function ref_many0 :: "'a parser \<Rightarrow> 'a list parser" where
  "ref_many0 p i = (case p i of
       Inl (Error e) \<Rightarrow> Inr (i, [])
     | Inl e \<Rightarrow> Inl e
     | Inr (r, x) \<Rightarrow>
         (if length r < length i
          then (case ref_many0 p r of Inl e \<Rightarrow> Inl e | Inr (r', xs) \<Rightarrow> Inr (r', x # xs))
          else Inl (Error \<lparr>input = i, code_kind = Many0\<rparr>)))"
  by pat_completeness auto
termination
  by (relation "measure (\<lambda>(p, i). length i)") auto

declare ref_many0.simps [simp del]

lemma ref_complete_law: "complete_law ref_complete"
  by (simp add: complete_law_def ref_complete_def)

lemma ref_map_law: "map_law ref_map"
  by (simp add: map_law_def ref_map_def)

lemma ref_alt_law: "alt_law ref_alt"
  by (simp add: alt_law_def)

lemma ref_preceded_law: "preceded_law ref_preceded"
  by (simp add: preceded_law_def ref_preceded_def)

lemma ref_tuple2_law: "tuple2_law ref_tuple2"
  by (simp add: tuple2_law_def ref_tuple2_def)

lemma ref_tuple3_law: "tuple3_law ref_tuple3"
  by (simp add: tuple3_law_def ref_tuple3_def)

lemma ref_many0_law: "many0_law ref_many0"
  unfolding many0_law_def
  by (intro conjI allI impI; subst ref_many0.simps) auto

lemmas nom_ref_laws =
  ref_tag_law ref_take_until_law ref_complete_law ref_map_law ref_alt_law ref_preceded_law
  ref_tuple2_law ref_tuple3_law ref_many0_law

end
