(* ===== verification/Smtp_Response.thy ===== *)
theory Smtp_Response
  imports Nom
begin

text \<open>
  \<open>src/response.rs\<close>: reply codes, responses and the reply parser built from the combinators
  of \<open>nom\<close>. The combinators are one record of parameters (one field per combinator and type
  of use); the locale \<open>nom_api\<close> states their documented laws, and the lemmas about the parser
  are proved inside it. \<open>reply_string\<close> is the reply grammar of RFC 5321, section 4.2, as the
  server writes it.
\<close>

section \<open>Reply codes\<close>

datatype severity =
  PositiveCompletion | PositiveIntermediate | TransientNegativeCompletion
| PermanentNegativeCompletion

datatype category =
  Syntax | Information | Connections | Unspecified3 | Unspecified4 | MailSystem

datatype detail = Zero | One | Two | Three | Four | Five | Six | Seven | Eight | Nine

record code =
  severity :: severity
  category :: category
  detail :: detail

record response =
  code :: code
  message :: "string list"

text \<open>The discriminants the enums are declared with (\<open>*self as u8\<close>).\<close>

fun severity_u8 :: "severity \<Rightarrow> u8" where
  "severity_u8 PositiveCompletion = 2"
| "severity_u8 PositiveIntermediate = 3"
| "severity_u8 TransientNegativeCompletion = 4"
| "severity_u8 PermanentNegativeCompletion = 5"

fun category_u8 :: "category \<Rightarrow> u8" where
  "category_u8 Syntax = 0"
| "category_u8 Information = 1"
| "category_u8 Connections = 2"
| "category_u8 Unspecified3 = 3"
| "category_u8 Unspecified4 = 4"
| "category_u8 MailSystem = 5"

fun detail_u8 :: "detail \<Rightarrow> u8" where
  "detail_u8 Zero = 0" | "detail_u8 One = 1" | "detail_u8 Two = 2" | "detail_u8 Three = 3"
| "detail_u8 Four = 4" | "detail_u8 Five = 5" | "detail_u8 Six = 6" | "detail_u8 Seven = 7"
| "detail_u8 Eight = 8" | "detail_u8 Nine = 9"

definition severity_fmt :: "severity \<Rightarrow> string" where
  "severity_fmt s = dec_string (unat (severity_u8 s))"

definition category_fmt :: "category \<Rightarrow> string" where
  "category_fmt c = dec_string (unat (category_u8 c))"

definition detail_fmt :: "detail \<Rightarrow> string" where
  "detail_fmt d = dec_string (unat (detail_u8 d))"

definition code_fmt :: "code \<Rightarrow> string" where
  "code_fmt c = severity_fmt (severity c) @ category_fmt (category c) @ detail_fmt (detail c)"

definition code_new :: "severity \<Rightarrow> category \<Rightarrow> detail \<Rightarrow> code" where
  "code_new s c d = \<lparr>severity = s, category = c, detail = d\<rparr>"

section \<open>Responses\<close>

definition response_new :: "code \<Rightarrow> string list \<Rightarrow> response" where
  "response_new c m = \<lparr>code = c, message = m\<rparr>"

definition is_positive :: "response \<Rightarrow> bool" where
  "is_positive r = (case severity (code r) of
      PositiveCompletion \<Rightarrow> True
    | PositiveIntermediate \<Rightarrow> True
    | _ \<Rightarrow> False)"

definition has_code :: "response \<Rightarrow> u16 \<Rightarrow> bool" where
  "has_code r n \<longleftrightarrow> code_fmt (code r) = dec_string (unat n)"

definition first_word :: "response \<Rightarrow> string option" where
  "first_word r = (case message r of
      [] \<Rightarrow> None
    | line # _ \<Rightarrow> (case split_whitespace line of [] \<Rightarrow> None | w # _ \<Rightarrow> Some w))"

definition first_line :: "response \<Rightarrow> string option" where
  "first_line r = (case message r of [] \<Rightarrow> None | line # _ \<Rightarrow> Some line)"

section \<open>The parser\<close>

text \<open>The combinators of \<open>nom\<close> at the types the parser uses them.\<close>

type_synonym reply_line = "code \<times> string \<times> string"

record nom_lib =
  tag :: "string \<Rightarrow> string parser"
  take_until :: "string \<Rightarrow> string parser"
  complete :: "string parser \<Rightarrow> string parser"
  preceded :: "string parser \<Rightarrow> string parser \<Rightarrow> string parser"
  map_severity :: "string parser \<Rightarrow> (string \<Rightarrow> severity) \<Rightarrow> severity parser"
  map_category :: "string parser \<Rightarrow> (string \<Rightarrow> category) \<Rightarrow> category parser"
  map_detail :: "string parser \<Rightarrow> (string \<Rightarrow> detail) \<Rightarrow> detail parser"
  alt_severity :: "severity parser list \<Rightarrow> severity parser"
  alt_category :: "category parser list \<Rightarrow> category parser"
  alt_detail :: "detail parser list \<Rightarrow> detail parser"
  tuple2 :: "code parser \<Rightarrow> string parser \<Rightarrow> (code \<times> string) parser"
  tuple3 :: "code parser \<Rightarrow> string parser \<Rightarrow> string parser \<Rightarrow> reply_line parser"
  many0 :: "reply_line parser \<Rightarrow> reply_line list parser"

definition parse_severity :: "nom_lib \<Rightarrow> severity parser" where
  "parse_severity N i =
     alt_severity N
       [map_severity N (tag N ''2'') (\<lambda>_. PositiveCompletion),
        map_severity N (tag N ''3'') (\<lambda>_. PositiveIntermediate),
        map_severity N (tag N ''4'') (\<lambda>_. TransientNegativeCompletion),
        map_severity N (tag N ''5'') (\<lambda>_. PermanentNegativeCompletion)] i"

definition parse_category :: "nom_lib \<Rightarrow> category parser" where
  "parse_category N i =
     alt_category N
       [map_category N (tag N ''0'') (\<lambda>_. Syntax),
        map_category N (tag N ''1'') (\<lambda>_. Information),
        map_category N (tag N ''2'') (\<lambda>_. Connections),
        map_category N (tag N ''3'') (\<lambda>_. Unspecified3),
        map_category N (tag N ''4'') (\<lambda>_. Unspecified4),
        map_category N (tag N ''5'') (\<lambda>_. MailSystem)] i"

definition parse_detail :: "nom_lib \<Rightarrow> detail parser" where
  "parse_detail N i =
     alt_detail N
       [map_detail N (tag N ''0'') (\<lambda>_. Zero),
        map_detail N (tag N ''1'') (\<lambda>_. One),
        map_detail N (tag N ''2'') (\<lambda>_. Two),
        map_detail N (tag N ''3'') (\<lambda>_. Three),
        map_detail N (tag N ''4'') (\<lambda>_. Four),
        map_detail N (tag N ''5'') (\<lambda>_. Five),
        map_detail N (tag N ''6'') (\<lambda>_. Six),
        map_detail N (tag N ''7'') (\<lambda>_. Seven),
        map_detail N (tag N ''8'') (\<lambda>_. Eight),
        map_detail N (tag N ''9'') (\<lambda>_. Nine)] i"

definition parse_code :: "nom_lib \<Rightarrow> code parser" where
  "parse_code N i =
     (case parse_severity N i of Inl e \<Rightarrow> Inl e | Inr (i, s) \<Rightarrow>
     (case parse_category N i of Inl e \<Rightarrow> Inl e | Inr (i, c) \<Rightarrow>
     (case parse_detail N i of Inl e \<Rightarrow> Inl e | Inr (i, d) \<Rightarrow>
       Inr (i, \<lparr>severity = s, category = c, detail = d\<rparr>))))"

text \<open>The two line parsers inside \<open>parse_response\<close>, named for the lemmas.\<close>

definition continuation_line :: "nom_lib \<Rightarrow> reply_line parser" where
  "continuation_line N =
     tuple3 N (parse_code N) (preceded N (tag N ''-'') (take_until N crlf)) (tag N crlf)"

definition last_reply_line :: "nom_lib \<Rightarrow> (code \<times> string) parser" where
  "last_reply_line N =
     tuple2 N (parse_code N) (preceded N (tag N '' '') (take_until N crlf))"

definition parse_response :: "nom_lib \<Rightarrow> response parser" where
  "parse_response N i =
     (case many0 N (continuation_line N) i of Inl e \<Rightarrow> Inl e | Inr (i, lines) \<Rightarrow>
     (case last_reply_line N i of Inl e \<Rightarrow> Inl e | Inr (i, last_code, last_line) \<Rightarrow>
     (case complete N (tag N crlf) i of Inl e \<Rightarrow> Inl e | Inr (i, _) \<Rightarrow>
       (if \<not> (\<forall>(code, _, _) \<in> set lines. code = last_code)
        then Inl (Failure \<lparr>input = '''', code_kind = Not\<rparr>)
        else
          (let lines = map (\<lambda>(_, text, _). text) lines;
               lines = lines @ [last_line]
           in Inr (i, \<lparr>code = last_code, message = lines\<rparr>))))))"

section \<open>The reply grammar\<close>

text \<open>
  What a server sends: every line but the last has a hyphen after the code, the last one a space
  (RFC 5321, section 4.2.1). \<open>raw_reply\<close> allows a code per line, so that it also describes
  the replies the parser rejects because their codes differ.
\<close>

definition reply_text :: "char \<Rightarrow> code \<times> string \<Rightarrow> string" where
  "reply_text sep l = code_fmt (fst l) @ [sep] @ snd l @ crlf"

definition raw_lines :: "(code \<times> string) list \<Rightarrow> string" where
  "raw_lines ls = concat (map (reply_text (CHR ''-'')) ls)"

definition raw_reply :: "(code \<times> string) list \<Rightarrow> code \<times> string \<Rightarrow> string" where
  "raw_reply ls l = raw_lines ls @ reply_text (CHR '' '') l"

definition clean_line :: "code \<times> string \<Rightarrow> bool" where
  "clean_line l \<longleftrightarrow> \<not> has_crlf (snd l)"

definition wf_response :: "response \<Rightarrow> bool" where
  "wf_response r \<longleftrightarrow> message r \<noteq> [] \<and> (\<forall>t \<in> set (message r). \<not> has_crlf t)"

definition reply_string :: "response \<Rightarrow> string" where
  "reply_string r =
     raw_reply (map (Pair (code r)) (butlast (message r))) (code r, last (message r))"

lemma raw_lines_Nil [simp]: "raw_lines [] = []"
  by (simp add: raw_lines_def)

lemma raw_lines_Cons [simp]: "raw_lines (l # ls) = reply_text (CHR ''-'') l @ raw_lines ls"
  by (simp add: raw_lines_def)

section \<open>The digits of a code\<close>

definition severity_table :: "(char \<times> severity) list" where
  "severity_table =
     [(CHR ''2'', PositiveCompletion), (CHR ''3'', PositiveIntermediate),
      (CHR ''4'', TransientNegativeCompletion), (CHR ''5'', PermanentNegativeCompletion)]"

definition category_table :: "(char \<times> category) list" where
  "category_table =
     [(CHR ''0'', Syntax), (CHR ''1'', Information), (CHR ''2'', Connections),
      (CHR ''3'', Unspecified3), (CHR ''4'', Unspecified4), (CHR ''5'', MailSystem)]"

definition detail_table :: "(char \<times> detail) list" where
  "detail_table =
     [(CHR ''0'', Zero), (CHR ''1'', One), (CHR ''2'', Two), (CHR ''3'', Three),
      (CHR ''4'', Four), (CHR ''5'', Five), (CHR ''6'', Six), (CHR ''7'', Seven),
      (CHR ''8'', Eight), (CHR ''9'', Nine)]"

lemmas digit_tables = severity_table_def category_table_def detail_table_def

definition severity_char :: "severity \<Rightarrow> char" where "severity_char s = hd (severity_fmt s)"
definition category_char :: "category \<Rightarrow> char" where "category_char c = hd (category_fmt c)"
definition detail_char :: "detail \<Rightarrow> char" where "detail_char d = hd (detail_fmt d)"

lemma dec_string_digit: "n < 10 \<Longrightarrow> dec_string n = [digit_char n]"
  by (simp add: dec_string.simps)

lemma digit_char_less_10:
  "digit_char 0 = CHR ''0''" "digit_char 1 = CHR ''1''" "digit_char (Suc 0) = CHR ''1''"
  "digit_char 2 = CHR ''2''" "digit_char 3 = CHR ''3''" "digit_char 4 = CHR ''4''"
  "digit_char 5 = CHR ''5''" "digit_char 6 = CHR ''6''" "digit_char 7 = CHR ''7''"
  "digit_char 8 = CHR ''8''" "digit_char 9 = CHR ''9''"
  by (simp_all add: digit_char_def char_of_def bit_0)

lemmas digit_fmt_simps = dec_string_digit digit_char_less_10

lemma severity_fmt_char: "severity_fmt s = [severity_char s]"
  by (cases s) (simp_all add: severity_char_def severity_fmt_def digit_fmt_simps)

lemma category_fmt_char: "category_fmt c = [category_char c]"
  by (cases c) (simp_all add: category_char_def category_fmt_def digit_fmt_simps)

lemma detail_fmt_char: "detail_fmt d = [detail_char d]"
  by (cases d) (simp_all add: detail_char_def detail_fmt_def digit_fmt_simps)

lemma severity_table_iff:
  "map_of severity_table x = Some s \<longleftrightarrow> x = severity_char s"
  by (cases s) (auto simp: severity_table_def severity_char_def severity_fmt_def digit_fmt_simps)

lemma category_table_iff:
  "map_of category_table x = Some c \<longleftrightarrow> x = category_char c"
  by (cases c) (auto simp: category_table_def category_char_def category_fmt_def digit_fmt_simps)

lemma detail_table_iff:
  "map_of detail_table x = Some d \<longleftrightarrow> x = detail_char d"
  by (cases d) (auto simp: detail_table_def detail_char_def detail_fmt_def digit_fmt_simps)

lemmas table_iff = severity_table_iff category_table_iff detail_table_iff

lemma code_fmt_chars:
  "code_fmt c = [severity_char (severity c), category_char (category c), detail_char (detail c)]"
  by (simp add: code_fmt_def severity_fmt_char category_fmt_char detail_fmt_char)

lemma length_code_fmt [simp]: "length (code_fmt c) = 3"
  by (simp add: code_fmt_chars)

lemma code_fmt_inject [simp]: "code_fmt c = code_fmt c' \<longleftrightarrow> c = c'"
proof
  assume "code_fmt c = code_fmt c'"
  then have "severity_char (severity c) = severity_char (severity c')"
    and "category_char (category c) = category_char (category c')"
    and "detail_char (detail c) = detail_char (detail c')"
    by (simp_all add: code_fmt_chars)
  then show "c = c'"
    by (metis code.equality old.unit.exhaust severity_table_iff category_table_iff
        detail_table_iff option.inject)
qed simp

section \<open>The parser under the laws of the combinators\<close>

locale nom_api =
  fixes N :: nom_lib
  assumes tag_law: "tag_law (tag N)"
    and take_until_law: "take_until_law (take_until N)"
    and complete_law: "complete_law (complete N)"
    and preceded_law: "preceded_law (preceded N)"
    and map_severity_law: "map_law (map_severity N)"
    and map_category_law: "map_law (map_category N)"
    and map_detail_law: "map_law (map_detail N)"
    and alt_severity_law: "alt_law (alt_severity N)"
    and alt_category_law: "alt_law (alt_category N)"
    and alt_detail_law: "alt_law (alt_detail N)"
    and tuple2_law: "tuple2_law (tuple2 N)"
    and tuple3_law: "tuple3_law (tuple3 N)"
    and many0_law: "many0_law (many0 N)"
begin

lemma tag_char:
  "tag N [c] [] = Inl (Incomplete (Size 1))"
  "tag N [c] (d # r) = (if d = c then Inr (r, [c]) else Inl (Error \<lparr>input = d # r, code_kind = Tag\<rparr>))"
proof -
  note T = tag_law[unfolded tag_law_def]
  show "tag N [c] [] = Inl (Incomplete (Size 1))"
    using T[THEN conjunct2, THEN conjunct1, rule_format, of "[]" "[c]"] by simp
  have "tag N [c] ([c] @ r) = Inr (r, [c])" using T by blast
  moreover have "d \<noteq> c \<Longrightarrow> tag N [c] (d # r) = Inl (Error \<lparr>input = d # r, code_kind = Tag\<rparr>)"
    using T[THEN conjunct2, THEN conjunct2, rule_format, of "[c]" "d # r"] by auto
  ultimately show "tag N [c] (d # r) = (if d = c then Inr (r, [c])
      else Inl (Error \<lparr>input = d # r, code_kind = Tag\<rparr>))" by simp
qed

lemma tag_crlf: "tag N crlf (CR # LF # r) = Inr (r, crlf)"
  using tag_law[unfolded tag_law_def, THEN conjunct1, rule_format, of crlf r] by simp

lemma take_until_found: "\<not> has_crlf l \<Longrightarrow> take_until N crlf (l @ CR # LF # r) = Inr (CR # LF # r, l)"
  using take_until_law[unfolded take_until_law_def, THEN conjunct1, rule_format, of l crlf r]
    first_crlf_at[of l _ r] by simp

lemma take_until_more: "\<not> has_crlf s \<Longrightarrow> take_until N crlf s = Inl (Incomplete Unknown)"
  using take_until_law by (simp add: take_until_law_def has_crlf_iff)

text \<open>A choice between one-character tags reads one character and looks it up in a table.\<close>

lemma alt_tags:
  assumes "alt_law al" and "map_law mp" and "tbl \<noteq> []"
  shows "al (map (\<lambda>(c, v). mp (tag N [c]) (\<lambda>_. v)) tbl) i =
    (case i of
       [] \<Rightarrow> Inl (Incomplete (Size 1))
     | c # r \<Rightarrow> (case map_of tbl c of
           Some v \<Rightarrow> Inr (r, v)
         | None \<Rightarrow> Inl (Error \<lparr>input = i, code_kind = Tag\<rparr>)))"
  using assms(3)
proof (induction tbl rule: list_nonempty_induct)
  case (single x)
  have "mp (tag N [fst x]) (\<lambda>_. snd x) i =
      (case tag N [fst x] i of Inl e \<Rightarrow> Inl e | Inr (r, _) \<Rightarrow> Inr (r, snd x))"
    using assms(2) by (simp add: map_law_def)
  then show ?case
    using assms(1) by (cases x; cases i) (auto simp: alt_law_def tag_char)
next
  case (cons x xs)
  obtain y ys where xs: "xs = y # ys" using cons.hyps by (cases xs) auto
  let ?P = "\<lambda>(c, v). mp (tag N [c]) (\<lambda>_. v)"
  have "?P x i = (case tag N [fst x] i of Inl e \<Rightarrow> Inl e | Inr (r, _) \<Rightarrow> Inr (r, snd x))"
    using assms(2) by (simp add: map_law_def case_prod_beta)
  moreover have "al (map ?P (x # xs)) i =
      (case ?P x i of Inl (Error e) \<Rightarrow> al (map ?P xs) i | r \<Rightarrow> r)"
    using assms(1) unfolding xs list.map by (simp add: alt_law_def)
  ultimately show ?case
    using cons.IH by (cases x; cases i) (simp_all add: tag_char)
qed

lemma parse_severity_eq:
  "parse_severity N i = (case i of
     [] \<Rightarrow> Inl (Incomplete (Size 1))
   | c # r \<Rightarrow> (case map_of severity_table c of
         Some v \<Rightarrow> Inr (r, v)
       | None \<Rightarrow> Inl (Error \<lparr>input = i, code_kind = Tag\<rparr>)))"
  using alt_tags[OF alt_severity_law map_severity_law, of severity_table i]
  by (simp add: parse_severity_def severity_table_def)

lemma parse_category_eq:
  "parse_category N i = (case i of
     [] \<Rightarrow> Inl (Incomplete (Size 1))
   | c # r \<Rightarrow> (case map_of category_table c of
         Some v \<Rightarrow> Inr (r, v)
       | None \<Rightarrow> Inl (Error \<lparr>input = i, code_kind = Tag\<rparr>)))"
  using alt_tags[OF alt_category_law map_category_law, of category_table i]
  by (simp add: parse_category_def category_table_def)

lemma parse_detail_eq:
  "parse_detail N i = (case i of
     [] \<Rightarrow> Inl (Incomplete (Size 1))
   | c # r \<Rightarrow> (case map_of detail_table c of
         Some v \<Rightarrow> Inr (r, v)
       | None \<Rightarrow> Inl (Error \<lparr>input = i, code_kind = Tag\<rparr>)))"
  using alt_tags[OF alt_detail_law map_detail_law, of detail_table i]
  by (simp add: parse_detail_def detail_table_def)

lemmas parse_digit_eqs = parse_severity_eq parse_category_eq parse_detail_eq

lemma parse_code_fmt: "parse_code N (code_fmt c @ r) = Inr (r, c)"
proof -
  have "map_of severity_table (severity_char (severity c)) = Some (severity c)"
    "map_of category_table (category_char (category c)) = Some (category c)"
    "map_of detail_table (detail_char (detail c)) = Some (detail c)"
    by (simp_all add: table_iff)
  then show ?thesis
    by (simp add: parse_code_def parse_digit_eqs code_fmt_chars)
qed

lemma parse_code_fmt_only: "parse_code N (code_fmt c) = Inr ([], c)"
  using parse_code_fmt[of c "[]"] by simp

lemma parse_code_Inr: "parse_code N i = Inr (r, c) \<Longrightarrow> i = code_fmt c @ r"
  by (auto simp: parse_code_def parse_digit_eqs code_fmt_chars table_iff
      split: list.splits option.splits)

lemma parse_code_more:
  assumes "strict_prefix i (code_fmt c)"
  shows "parse_code N i = Inl (Incomplete (Size 1))"
proof -
  have "map_of severity_table (severity_char (severity c)) = Some (severity c)"
    "map_of category_table (category_char (category c)) = Some (category c)"
    by (simp_all add: table_iff)
  moreover have "i = [] \<or> i = [severity_char (severity c)] \<or>
      i = [severity_char (severity c), category_char (category c)]"
    using assms by (auto simp: code_fmt_chars strict_prefix_def prefix_Cons)
  ultimately show ?thesis by (auto simp: parse_code_def parse_digit_eqs)
qed

lemma parse_code_Incomplete:
  assumes "parse_code N i = Inl (Incomplete n)"
  shows "\<exists>c. strict_prefix i (code_fmt c)"
proof -
  consider (none) "i = []"
    | (one) s where "i = [severity_char s]"
    | (two) s c where "i = [severity_char s, category_char c]"
    using assms by (auto simp: parse_code_def parse_digit_eqs table_iff
        split: list.splits option.splits)
  then show ?thesis
  proof cases
    case none
    then show ?thesis by (auto simp: code_fmt_chars)
  next
    case one
    then show ?thesis
      by (intro exI[of _ "\<lparr>severity = s, category = Syntax, detail = Zero\<rparr>"])
        (simp add: code_fmt_chars)
  next
    case two
    then show ?thesis
      by (intro exI[of _ "\<lparr>severity = s, category = c, detail = Zero\<rparr>"])
        (simp add: code_fmt_chars)
  qed
qed

lemma parse_code_no_Failure: "parse_code N i \<noteq> Inl (Failure e)"
  by (auto simp: parse_code_def parse_digit_eqs split: list.splits option.splits)

text \<open>A separator character and the text up to the first CRLF.\<close>

abbreviation sep_text :: "char \<Rightarrow> string parser" where
  "sep_text d \<equiv> preceded N (tag N [d]) (take_until N crlf)"

lemma sep_text_eq:
  "sep_text d i = (case tag N [d] i of Inl e \<Rightarrow> Inl e | Inr (r, x) \<Rightarrow> take_until N crlf r)"
  using preceded_law by (simp add: preceded_law_def)

lemma sep_text_Nil: "sep_text d [] = Inl (Incomplete (Size 1))"
  by (simp add: sep_text_eq tag_char)

lemma sep_text_found: "\<not> has_crlf t \<Longrightarrow> sep_text d (d # t @ CR # LF # r) = Inr (CR # LF # r, t)"
  by (simp add: sep_text_eq tag_char take_until_found)

lemma sep_text_more: "\<not> has_crlf t \<Longrightarrow> sep_text d (d # t) = Inl (Incomplete Unknown)"
  by (simp add: sep_text_eq tag_char take_until_more)

lemma sep_text_other: "c \<noteq> d \<Longrightarrow> \<exists>e. sep_text d (c # t) = Inl (Error e)"
  by (simp add: sep_text_eq tag_char)

lemma sep_text_cases:
  obtains (none) "i = []" "sep_text d i = Inl (Incomplete (Size 1))"
  | (other) e where "sep_text d i = Inl (Error e)" "i \<noteq> []" "hd i \<noteq> d"
  | (more) t where "i = d # t" "\<not> has_crlf t" "sep_text d i = Inl (Incomplete Unknown)"
  | (found) t r where "i = d # t @ CR # LF # r" "\<not> has_crlf t" "sep_text d i = Inr (CR # LF # r, t)"
proof (cases i)
  case Nil
  then show ?thesis by (auto intro: none simp: sep_text_Nil)
next
  case (Cons c t)
  show ?thesis
  proof (cases "c = d")
    case False
    with Cons sep_text_other[of c d t] show ?thesis by (auto intro: other)
  next
    case True
    show ?thesis
    proof (cases "has_crlf t")
      case False
      with True Cons show ?thesis by (auto intro: more simp: sep_text_more)
    next
      case has: True
      then obtain l r where "t = l @ CR # LF # r" "\<not> has_crlf l" using has_crlf_split by blast
      with True Cons show ?thesis by (auto intro: found simp: sep_text_found)
    qed
  qed
qed

text \<open>The two kinds of reply lines.\<close>

lemma continuation_line_eq:
  "continuation_line N i =
     (case parse_code N i of Inl e \<Rightarrow> Inl e | Inr (r, c) \<Rightarrow>
     (case sep_text (CHR ''-'') r of Inl e \<Rightarrow> Inl e | Inr (r', t) \<Rightarrow>
     (case tag N crlf r' of Inl e \<Rightarrow> Inl e | Inr (r'', u) \<Rightarrow> Inr (r'', c, t, u))))"
  using tuple3_law by (simp add: tuple3_law_def continuation_line_def)

lemma last_reply_line_eq:
  "last_reply_line N i =
     (case parse_code N i of Inl e \<Rightarrow> Inl e | Inr (r, c) \<Rightarrow>
     (case sep_text (CHR '' '') r of Inl e \<Rightarrow> Inl e | Inr (r', t) \<Rightarrow> Inr (r', c, t)))"
  using tuple2_law by (simp add: tuple2_law_def last_reply_line_def)

lemma continuation_line_text:
  "clean_line l \<Longrightarrow>
     continuation_line N (reply_text (CHR ''-'') l @ r) = Inr (r, fst l, snd l, crlf)"
  by (simp add: continuation_line_eq reply_text_def clean_line_def parse_code_fmt
      sep_text_found tag_crlf)

lemma last_reply_line_text:
  "clean_line l \<Longrightarrow>
     last_reply_line N (reply_text (CHR '' '') l @ r) = Inr (CR # LF # r, l)"
  by (cases l) (simp add: last_reply_line_eq reply_text_def clean_line_def parse_code_fmt
      sep_text_found)

lemma continuation_line_Inr:
  assumes "continuation_line N i = Inr (r, c, t, u)"
  shows "i = reply_text (CHR ''-'') (c, t) @ r \<and> clean_line (c, t)"
proof -
  obtain q where q: "parse_code N i = Inr (q, c)" "sep_text (CHR ''-'') q \<noteq> Inl e" for e
    using assms by (auto simp: continuation_line_eq split: sum.splits prod.splits)
  have i: "i = code_fmt c @ q" using q(1) by (rule parse_code_Inr)
  show ?thesis
    using assms q
    by (cases rule: sep_text_cases[of q "CHR ''-''"])
      (auto simp: continuation_line_eq i reply_text_def clean_line_def tag_crlf)
qed

lemma last_reply_line_Inr:
  assumes "last_reply_line N i = Inr (r, c, t)"
  shows "\<exists>r'. r = CR # LF # r' \<and> i = reply_text (CHR '' '') (c, t) @ r' \<and> clean_line (c, t)"
proof -
  obtain q where q: "parse_code N i = Inr (q, c)" "sep_text (CHR '' '') q \<noteq> Inl e" for e
    using assms by (auto simp: last_reply_line_eq split: sum.splits prod.splits)
  have i: "i = code_fmt c @ q" using q(1) by (rule parse_code_Inr)
  show ?thesis
    using assms q
    by (cases rule: sep_text_cases[of q "CHR '' ''"])
      (auto simp: last_reply_line_eq i reply_text_def clean_line_def)
qed

lemma line_no_Failure:
  "continuation_line N i \<noteq> Inl (Failure e)" "last_reply_line N i \<noteq> Inl (Failure e)"
proof -
  show "continuation_line N i \<noteq> Inl (Failure e)"
  proof (cases "parse_code N i")
    case (Inr p)
    then show ?thesis
      by (cases rule: sep_text_cases[of "fst p" "CHR ''-''"])
        (auto simp: continuation_line_eq tag_crlf split: prod.splits)
  qed (auto simp: continuation_line_eq parse_code_no_Failure)
  show "last_reply_line N i \<noteq> Inl (Failure e)"
  proof (cases "parse_code N i")
    case (Inr p)
    then show ?thesis
      by (cases rule: sep_text_cases[of "fst p" "CHR '' ''"])
        (auto simp: last_reply_line_eq split: prod.splits)
  qed (auto simp: last_reply_line_eq parse_code_no_Failure)
qed

text \<open>A line that is cut off is reported as incomplete, and only such a line is.\<close>

lemma strict_prefix_reply_text:
  assumes "strict_prefix i (reply_text d l)" and "clean_line l"
  obtains "strict_prefix i (code_fmt (fst l))"
  | "i = code_fmt (fst l)"
  | t where "i = code_fmt (fst l) @ d # t" "\<not> has_crlf t"
proof (cases "length i \<le> 3")
  case True
  from assms(1) have "prefix i (code_fmt (fst l) @ d # snd l @ crlf)"
    by (simp add: reply_text_def strict_prefix_def)
  then have "prefix i (code_fmt (fst l))"
    using True by (metis length_code_fmt prefixI prefix_length_prefix)
  then show ?thesis using that(1,2) by (auto simp: strict_prefix_def)
next
  case False
  from assms(1) obtain z zs where z: "code_fmt (fst l) @ d # snd l @ crlf = i @ z # zs"
    by (auto simp: reply_text_def strict_prefix_def prefix_def neq_Nil_conv)
  then obtain u where u: "i = code_fmt (fst l) @ u"
    using False by (auto simp: append_eq_append_conv2 dest: arg_cong[where f = length])
  then obtain t where t: "i = code_fmt (fst l) @ d # t"
    using z False by (cases u) auto
  then have eq: "(snd l @ [CR]) @ [LF] = t @ z # zs" using z by simp
  then have "prefix t ((snd l @ [CR]) @ [LF])" by (simp only: prefixI)
  moreover have "t \<noteq> (snd l @ [CR]) @ [LF]" using eq by auto
  ultimately have "prefix t (snd l @ [CR])" by (simp only: prefix_snoc simp_thms)
  moreover have "\<not> has_crlf (snd l @ [CR])"
    using assms(2) by (simp add: has_crlf_append clean_line_def)
  ultimately have "\<not> has_crlf t" by (auto simp: prefix_def dest: has_crlf_appendD)
  with t show ?thesis by (rule that(3))
qed

lemma continuation_line_more:
  assumes "strict_prefix i (reply_text (CHR ''-'') l)" and "clean_line l"
  shows "\<exists>n. continuation_line N i = Inl (Incomplete n)"
  using assms
proof (cases rule: strict_prefix_reply_text)
  case 1
  then show ?thesis by (simp add: continuation_line_eq parse_code_more)
next
  case 2
  then show ?thesis by (simp add: continuation_line_eq parse_code_fmt_only sep_text_Nil)
next
  case (3 t)
  then show ?thesis by (simp add: continuation_line_eq parse_code_fmt sep_text_more)
qed

lemma last_reply_line_more:
  assumes "strict_prefix i (reply_text (CHR '' '') l)" and "clean_line l"
  shows "(\<exists>n. continuation_line N i = Inl (Incomplete n)) \<or>
    (\<exists>e n. continuation_line N i = Inl (Error e) \<and> last_reply_line N i = Inl (Incomplete n))"
  using assms
proof (cases rule: strict_prefix_reply_text)
  case 1
  then show ?thesis by (simp add: continuation_line_eq parse_code_more)
next
  case 2
  then show ?thesis
    by (simp add: continuation_line_eq parse_code_fmt_only sep_text_Nil)
next
  case (3 t)
  obtain e where "sep_text (CHR ''-'') (CHR '' '' # t) = Inl (Error e)"
    using sep_text_other[of "CHR '' ''" "CHR ''-''" t] by auto
  with 3 show ?thesis
    by (simp add: continuation_line_eq last_reply_line_eq parse_code_fmt sep_text_more)
qed

lemma continuation_line_last:
  "\<exists>e. continuation_line N (reply_text (CHR '' '') l @ r) = Inl (Error e)"
proof -
  obtain e where "sep_text (CHR ''-'') (CHR '' '' # snd l @ CR # LF # r) = Inl (Error e)"
    using sep_text_other[of "CHR '' ''" "CHR ''-''"] by auto
  then show ?thesis by (simp add: continuation_line_eq reply_text_def parse_code_fmt)
qed

lemma line_Incomplete_aux:
  assumes "case parse_code N i of Inl e \<Rightarrow> e = Incomplete n
    | Inr (r, c) \<Rightarrow> sep_text d r = Inl (Incomplete n)"
  shows "\<exists>l. clean_line l \<and> strict_prefix i (reply_text d l)"
proof (cases "parse_code N i")
  case (Inl e)
  then obtain c where "strict_prefix i (code_fmt c)"
    using assms parse_code_Incomplete by auto
  then have "strict_prefix i (reply_text d (c, []))"
    by (auto simp: reply_text_def strict_prefix_def prefix_def)
  moreover have "clean_line (c, [])" by (simp add: clean_line_def)
  ultimately show ?thesis by blast
next
  case (Inr p)
  obtain r c where p: "p = (r, c)" by (cases p)
  have i: "i = code_fmt c @ r" using Inr p parse_code_Inr by simp
  have "sep_text d r = Inl (Incomplete n)" using assms Inr p by simp
  then obtain t where "clean_line (c, t)" "strict_prefix r (d # t @ crlf)"
  proof (cases rule: sep_text_cases[of r d])
    case none
    then show ?thesis using that[of "[]"] by (simp add: clean_line_def)
  next
    case (more t)
    then show ?thesis using that[of t] by (simp add: clean_line_def strict_prefix_def)
  qed auto
  then have "strict_prefix i (reply_text d (c, t))"
    by (simp add: i reply_text_def)
  with \<open>clean_line (c, t)\<close> show ?thesis by blast
qed

lemma continuation_line_Incomplete:
  assumes "continuation_line N i = Inl (Incomplete n)"
  shows "\<exists>l. clean_line l \<and> strict_prefix i (reply_text (CHR ''-'') l)"
proof (rule line_Incomplete_aux)
  show "case parse_code N i of Inl e \<Rightarrow> e = Incomplete n
    | Inr (r, c) \<Rightarrow> sep_text (CHR ''-'') r = Inl (Incomplete n)"
  proof (cases "parse_code N i")
    case (Inr p)
    then show ?thesis using assms
      by (cases rule: sep_text_cases[of "fst p" "CHR ''-''"])
        (auto simp: continuation_line_eq tag_crlf split: prod.splits)
  qed (use assms in \<open>auto simp: continuation_line_eq\<close>)
qed

lemma last_reply_line_Incomplete:
  assumes "last_reply_line N i = Inl (Incomplete n)"
  shows "\<exists>l. clean_line l \<and> strict_prefix i (reply_text (CHR '' '') l)"
proof (rule line_Incomplete_aux)
  show "case parse_code N i of Inl e \<Rightarrow> e = Incomplete n
    | Inr (r, c) \<Rightarrow> sep_text (CHR '' '') r = Inl (Incomplete n)"
    using assms by (auto simp: last_reply_line_eq split: sum.splits prod.splits)
qed

text \<open>The repetition of continuation lines.\<close>

abbreviation many_lines :: "reply_line list parser" where
  "many_lines \<equiv> many0 N (continuation_line N)"

abbreviation as_reply_line :: "code \<times> string \<Rightarrow> reply_line" where
  "as_reply_line l \<equiv> (fst l, snd l, crlf)"

lemma many_lines_stop: "continuation_line N i = Inl (Error e) \<Longrightarrow> many_lines i = Inr (i, [])"
  using many0_law by (simp add: many0_law_def)

lemma many_lines_more:
  "continuation_line N i = Inl (Incomplete n) \<Longrightarrow> many_lines i = Inl (Incomplete n)"
  using many0_law by (simp add: many0_law_def)

lemma many_lines_step:
  assumes "clean_line l"
  shows "many_lines (reply_text (CHR ''-'') l @ r) =
    (case many_lines r of Inl e \<Rightarrow> Inl e | Inr (r', xs) \<Rightarrow> Inr (r', as_reply_line l # xs))"
proof -
  have "length r < length (reply_text (CHR ''-'') l @ r)" by (simp add: reply_text_def)
  then show ?thesis
    using many0_law continuation_line_text[OF assms, of r] by (simp add: many0_law_def)
qed

lemma many_lines_raw:
  "\<forall>l \<in> set ls. clean_line l \<Longrightarrow>
   many_lines (raw_lines ls @ r) =
     (case many_lines r of Inl e \<Rightarrow> Inl e
      | Inr (r', xs) \<Rightarrow> Inr (r', map as_reply_line ls @ xs))"
  by (induction ls) (auto simp: many_lines_step split: sum.split)

text \<open>Every input is a sequence of continuation lines and something that is not one.\<close>

lemma many_lines_cases:
  obtains (stop) ls r e where "i = raw_lines ls @ r" "\<forall>l \<in> set ls. clean_line l"
      "continuation_line N r = Inl (Error e)" "many_lines i = Inr (r, map as_reply_line ls)"
  | (more) ls r n where "i = raw_lines ls @ r" "\<forall>l \<in> set ls. clean_line l"
      "continuation_line N r = Inl (Incomplete n)" "many_lines i = Inl (Incomplete n)"
proof -
  have "\<exists>ls r. i = raw_lines ls @ r \<and> (\<forall>l \<in> set ls. clean_line l) \<and>
      (\<exists>e. continuation_line N r = Inl e)"
  proof (induction i rule: length_induct)
    case (1 i)
    show ?case
    proof (cases "continuation_line N i")
      case (Inl e)
      then show ?thesis by (intro exI[of _ "[]"] exI[of _ i]) simp
    next
      case (Inr p)
      then obtain r c t u where "continuation_line N i = Inr (r, c, t, u)" by (cases p) auto
      then have i: "i = reply_text (CHR ''-'') (c, t) @ r" "clean_line (c, t)"
        using continuation_line_Inr by blast+
      then have "length r < length i" by (simp add: reply_text_def)
      with 1 obtain ls r' e where "r = raw_lines ls @ r'" "\<forall>l \<in> set ls. clean_line l"
        "continuation_line N r' = Inl e" by blast
      with i show ?thesis by (intro exI[of _ "(c, t) # ls"] exI[of _ r']) simp
    qed
  qed
  then obtain ls r e where *: "i = raw_lines ls @ r" "\<forall>l \<in> set ls. clean_line l"
    "continuation_line N r = Inl e" by blast
  show ?thesis
  proof (cases e)
    case (Incomplete n)
    with * show ?thesis by (intro more[of ls r n]) (simp_all add: many_lines_raw many_lines_more)
  next
    case (Error x)
    with * show ?thesis by (intro stop[of ls r x]) (simp_all add: many_lines_raw many_lines_stop)
  next
    case (Failure x)
    with * line_no_Failure(1) show ?thesis by simp
  qed
qed

section \<open>The parser on complete, cut-off and other inputs\<close>

lemma complete_crlf: "complete N (tag N crlf) (CR # LF # r) = Inr (r, crlf)"
  using complete_law by (simp add: complete_law_def tag_crlf)

lemma parse_response_raw:
  assumes "\<forall>x \<in> set ls. clean_line x" and "clean_line l"
  shows "parse_response N (raw_reply ls l @ r) =
    (if \<forall>x \<in> set ls. fst x = fst l
     then Inr (r, \<lparr>code = fst l, message = map snd ls @ [snd l]\<rparr>)
     else Inl (Failure \<lparr>input = '''', code_kind = Not\<rparr>))"
proof -
  obtain e where "continuation_line N (reply_text (CHR '' '') l @ r) = Inl (Error e)"
    using continuation_line_last by blast
  then have "many_lines (raw_reply ls l @ r) =
      Inr (reply_text (CHR '' '') l @ r, map as_reply_line ls)"
    using assms(1) by (simp add: raw_reply_def many_lines_raw many_lines_stop)
  then show ?thesis
    using last_reply_line_text[OF assms(2), of r]
    by (cases l) (auto simp: parse_response_def complete_crlf Let_def)
qed

lemma parse_response_more:
  assumes "\<forall>x \<in> set ls. clean_line x" and "clean_line l" and "strict_prefix i (raw_reply ls l)"
  shows "\<exists>n. parse_response N i = Inl (Incomplete n)"
proof -
  have "\<exists>n. many_lines i = Inl (Incomplete n) \<or>
    (\<exists>r xs. many_lines i = Inr (r, xs) \<and> last_reply_line N r = Inl (Incomplete n))"
    using assms(1,3)
  proof (induction ls arbitrary: i)
    case Nil
    then have "strict_prefix i (reply_text (CHR '' '') l)" by (simp add: raw_reply_def)
    from last_reply_line_more[OF this assms(2)] show ?case
      using many_lines_more many_lines_stop by blast
  next
    case (Cons x xs)
    show ?case
    proof (cases "strict_prefix i (reply_text (CHR ''-'') x)")
      case True
      then show ?thesis
        using continuation_line_more[OF True] Cons.prems(1) many_lines_more by fastforce
    next
      case False
      have "strict_prefix i (reply_text (CHR ''-'') x @ raw_reply xs l)"
        using Cons.prems(2) by (simp add: raw_reply_def)
      with False obtain j where j: "i = reply_text (CHR ''-'') x @ j" "strict_prefix j (raw_reply xs l)"
        by (metis append_Nil2 prefix_append prefix_order.dual_order.strict_iff_order
            strict_prefix_append_same)
      with Cons.IH[of j] Cons.prems(1) show ?thesis
        by (fastforce simp: many_lines_step)
    qed
  qed
  then show ?thesis by (auto simp: parse_response_def)
qed

text \<open>The three cases exclude each other, so each of them characterises its result.\<close>

lemma parse_response_cases:
  obtains (reply) ls l r where "i = raw_reply ls l @ r" "\<forall>x \<in> set ls. clean_line x" "clean_line l"
  | (more) ls l n where "strict_prefix i (raw_reply ls l)" "\<forall>x \<in> set ls. clean_line x"
      "clean_line l" "parse_response N i = Inl (Incomplete n)"
  | (error) e where "parse_response N i = Inl (Error e)"
proof (cases rule: many_lines_cases[of i])
  case (more ls r n)
  then obtain x where x: "clean_line x" "strict_prefix r (reply_text (CHR ''-'') x)"
    using continuation_line_Incomplete by blast
  obtain z where "reply_text (CHR ''-'') x = r @ z" "z \<noteq> []"
    using x(2) by (auto simp: strict_prefix_def prefix_def)
  then have "strict_prefix i (raw_reply (ls @ [x]) x)"
    using more(1) by (simp add: raw_reply_def raw_lines_def strict_prefix_def)
  moreover have "parse_response N i = Inl (Incomplete n)" using more by (simp add: parse_response_def)
  ultimately show ?thesis using more(2) x(1) that(2)[of "ls @ [x]" x n] by auto
next
  case (stop ls r e)
  show ?thesis
  proof (cases "last_reply_line N r")
    case (Inr p)
    then obtain q l where ql: "last_reply_line N r = Inr (q, l)" by (cases p) auto
    then obtain r' where "r = reply_text (CHR '' '') l @ r'" "clean_line l"
      using last_reply_line_Inr by (metis surj_pair)
    with stop show ?thesis using that(1)[of ls l r'] by (simp add: raw_reply_def)
  next
    case (Inl f)
    then have res: "parse_response N i = Inl f" using stop by (simp add: parse_response_def)
    show ?thesis
    proof (cases f)
      case (Incomplete n)
      then obtain l where "clean_line l" "strict_prefix r (reply_text (CHR '' '') l)"
        using Inl last_reply_line_Incomplete by blast
      then show ?thesis
        using that(2)[of ls l n] stop res Incomplete by (simp add: raw_reply_def)
    next
      case (Error x)
      with res that(3) show ?thesis by simp
    next
      case (Failure x)
      with Inl line_no_Failure(2) show ?thesis by simp
    qed
  qed
qed

lemma parse_response_Incomplete_iff:
  "(\<exists>n. parse_response N i = Inl (Incomplete n)) \<longleftrightarrow>
     (\<exists>ls l. (\<forall>x \<in> set ls. clean_line x) \<and> clean_line l \<and> strict_prefix i (raw_reply ls l))"
proof
  assume "\<exists>n. parse_response N i = Inl (Incomplete n)"
  then show "\<exists>ls l. (\<forall>x \<in> set ls. clean_line x) \<and> clean_line l \<and> strict_prefix i (raw_reply ls l)"
    by (cases rule: parse_response_cases[of i]) (auto simp: parse_response_raw split: if_splits)
qed (use parse_response_more in blast)

lemma parse_response_Failure_iff:
  "parse_response N i = Inl (Failure f) \<longleftrightarrow> f = \<lparr>input = [], code_kind = Not\<rparr> \<and>
     (\<exists>ls l r. i = raw_reply ls l @ r \<and> (\<forall>x \<in> set ls. clean_line x) \<and> clean_line l \<and>
        (\<exists>x \<in> set ls. fst x \<noteq> fst l))"
proof
  assume fail: "parse_response N i = Inl (Failure f)"
  show "f = \<lparr>input = [], code_kind = Not\<rparr> \<and>
     (\<exists>ls l r. i = raw_reply ls l @ r \<and> (\<forall>x \<in> set ls. clean_line x) \<and> clean_line l \<and>
        (\<exists>x \<in> set ls. fst x \<noteq> fst l))"
  proof (cases rule: parse_response_cases[of i])
    case (reply ls l r)
    with fail have "\<exists>x \<in> set ls. fst x \<noteq> fst l" "f = \<lparr>input = [], code_kind = Not\<rparr>"
      by (auto simp: parse_response_raw split: if_splits)
    with reply show ?thesis by blast
  qed (use fail in simp_all)
next
  assume "f = \<lparr>input = [], code_kind = Not\<rparr> \<and>
     (\<exists>ls l r. i = raw_reply ls l @ r \<and> (\<forall>x \<in> set ls. clean_line x) \<and> clean_line l \<and>
        (\<exists>x \<in> set ls. fst x \<noteq> fst l))"
  then show "parse_response N i = Inl (Failure f)"
    by (metis (no_types, lifting) parse_response_raw)
qed

lemma parse_response_Error_iff:
  "(\<exists>e. parse_response N i = Inl (Error e)) \<longleftrightarrow>
     \<not> (\<exists>ls l. (\<forall>x \<in> set ls. clean_line x) \<and> clean_line l \<and>
         (prefix (raw_reply ls l) i \<or> strict_prefix i (raw_reply ls l)))"
proof
  assume error: "\<exists>e. parse_response N i = Inl (Error e)"
  show "\<not> (\<exists>ls l. (\<forall>x \<in> set ls. clean_line x) \<and> clean_line l \<and>
         (prefix (raw_reply ls l) i \<or> strict_prefix i (raw_reply ls l)))"
  proof
    assume "\<exists>ls l. (\<forall>x \<in> set ls. clean_line x) \<and> clean_line l \<and>
         (prefix (raw_reply ls l) i \<or> strict_prefix i (raw_reply ls l))"
    then obtain ls l where l: "\<forall>x \<in> set ls. clean_line x" "clean_line l"
      and "prefix (raw_reply ls l) i \<or> strict_prefix i (raw_reply ls l)" by blast
    then show False
      using error parse_response_raw[OF l] parse_response_more[OF l, of i]
      by (auto simp: prefix_def split: if_splits)
  qed
next
  assume none: "\<not> (\<exists>ls l. (\<forall>x \<in> set ls. clean_line x) \<and> clean_line l \<and>
         (prefix (raw_reply ls l) i \<or> strict_prefix i (raw_reply ls l)))"
  show "\<exists>e. parse_response N i = Inl (Error e)"
  proof (cases rule: parse_response_cases[of i])
    case (reply ls l r)
    with none show ?thesis by (metis prefixI)
  next
    case (more ls l n)
    with none show ?thesis by blast
  qed blast
qed

lemma parse_response_Inr_raw:
  assumes "parse_response N i = Inr (rest, r)"
  obtains ls l where "i = raw_reply ls l @ rest" "\<forall>x \<in> set ls. clean_line x" "clean_line l"
    "\<forall>x \<in> set ls. fst x = fst l" "r = \<lparr>code = fst l, message = map snd ls @ [snd l]\<rparr>"
  using assms
  by (cases rule: parse_response_cases[of i]) (auto simp: parse_response_raw split: if_splits)

lemma parse_response_Inr_iff:
  "parse_response N i = Inr (rest, r) \<longleftrightarrow> wf_response r \<and> i = reply_string r @ rest"
proof
  assume "parse_response N i = Inr (rest, r)"
  then obtain ls l where *: "i = raw_reply ls l @ rest" "\<forall>x \<in> set ls. clean_line x" "clean_line l"
    "\<forall>x \<in> set ls. fst x = fst l" "r = \<lparr>code = fst l, message = map snd ls @ [snd l]\<rparr>"
    by (rule parse_response_Inr_raw)
  have "map (Pair (fst l)) (map snd ls) = ls"
    using *(4) by (induction ls) auto
  then have "reply_string r = raw_reply ls l" using *(5) by (simp add: reply_string_def)
  with * show "wf_response r \<and> i = reply_string r @ rest"
    by (auto simp: wf_response_def clean_line_def)
next
  assume r: "wf_response r \<and> i = reply_string r @ rest"
  then have ne: "message r \<noteq> []" by (simp add: wf_response_def)
  have "parse_response N i = Inr (rest, \<lparr>code = code r, message = butlast (message r) @ [last (message r)]\<rparr>)"
    using r ne in_set_butlastD[of _ "message r"] last_in_set[OF ne]
    by (auto simp: reply_string_def parse_response_raw clean_line_def wf_response_def o_def)
  with ne show "parse_response N i = Inr (rest, r)" by simp
qed

end

section \<open>The laws can be met: executable combinators\<close>

definition nom_ref :: nom_lib where
  "nom_ref = \<lparr>tag = ref_tag, take_until = ref_take_until, complete = ref_complete,
     preceded = ref_preceded, map_severity = ref_map, map_category = ref_map, map_detail = ref_map,
     alt_severity = ref_alt, alt_category = ref_alt, alt_detail = ref_alt, tuple2 = ref_tuple2,
     tuple3 = ref_tuple3, many0 = ref_many0\<rparr>"

interpretation ref_nom: nom_api nom_ref
  by unfold_locales (simp_all add: nom_ref_def nom_ref_laws)

section \<open>Responses and their codes\<close>

definition code_number :: "code \<Rightarrow> nat" where
  "code_number c =
     100 * unat (severity_u8 (severity c)) + 10 * unat (category_u8 (category c))
       + unat (detail_u8 (detail c))"

lemma digit_bounds:
  "unat (severity_u8 s) \<in> {2..5}" "unat (category_u8 c) \<le> 5" "unat (detail_u8 d) \<le> 9"
  by (cases s; simp; fail) (cases c; simp; fail | cases d; simp; fail)+

lemma dec_string_append:
  "n \<noteq> 0 \<Longrightarrow> d < 10 \<Longrightarrow> dec_string (10 * n + d) = dec_string n @ [digit_char d]"
  by (subst dec_string.simps) simp

lemma code_fmt_number: "code_fmt c = dec_string (code_number c)"
proof -
  let ?s = "unat (severity_u8 (severity c))" and ?g = "unat (category_u8 (category c))"
    and ?d = "unat (detail_u8 (detail c))"
  have b: "?s \<noteq> 0" "?s < 10" "?g < 10" "?d < 10"
    using digit_bounds(1)[of "severity c"] digit_bounds(2)[of "category c"]
      digit_bounds(3)[of "detail c"] by simp_all
  have "code_number c = 10 * (10 * ?s + ?g) + ?d" by (simp add: code_number_def)
  then have "dec_string (code_number c) = dec_string ?s @ [digit_char ?g] @ [digit_char ?d]"
    using b dec_string_append[of "10 * ?s + ?g" ?d] dec_string_append[of ?s ?g] by simp
  then show ?thesis
    using b by (simp add: code_fmt_def severity_fmt_def category_fmt_def detail_fmt_def
        dec_string_digit)
qed

lemma code_number_range: "200 \<le> code_number c \<and> code_number c < 560"
  using digit_bounds(1)[of "severity c"] digit_bounds(2)[of "category c"]
    digit_bounds(3)[of "detail c"]
  by (simp add: code_number_def)

lemma has_code_iff: "has_code r n \<longleftrightarrow> code_number (code r) = unat n"
  by (simp add: has_code_def code_fmt_number dec_string_inject)

lemma has_code_positive: "has_code r 334 \<Longrightarrow> is_positive r"
  using digit_bounds(2)[of "category (code r)"] digit_bounds(3)[of "detail (code r)"]
  by (cases "severity (code r)") (auto simp: has_code_iff code_number_def is_positive_def)

lemma is_positive_iff: "is_positive r \<longleftrightarrow> code_number (code r) < 400"
  using digit_bounds(2)[of "category (code r)"] digit_bounds(3)[of "detail (code r)"]
  by (cases "severity (code r)") (auto simp: code_number_def is_positive_def)

lemma first_word_not_empty: "first_word r = Some w \<Longrightarrow> w \<noteq> []"
  using split_whitespace_no_empty
  by (auto simp: first_word_def split: list.splits)
    (metis list.set_intros(1) split_whitespace_no_empty)

section \<open>The order of severities\<close>

text \<open>
  The severities are ordered by the first digit of the reply code, so that the positive replies are
  an initial segment.
\<close>

instantiation severity :: linorder
begin

definition less_eq_severity :: "severity \<Rightarrow> severity \<Rightarrow> bool" where
  "less_eq_severity s t \<longleftrightarrow> severity_u8 s \<le> severity_u8 t"

definition less_severity :: "severity \<Rightarrow> severity \<Rightarrow> bool" where
  "less_severity s t \<longleftrightarrow> severity_u8 s < severity_u8 t"

instance
proof
  fix x y z :: severity
  show "x < y \<longleftrightarrow> x \<le> y \<and> \<not> y \<le> x" by (auto simp: less_eq_severity_def less_severity_def)
  show "x \<le> x" by (simp add: less_eq_severity_def)
  show "x \<le> y \<Longrightarrow> y \<le> z \<Longrightarrow> x \<le> z" by (simp add: less_eq_severity_def)
  show "x \<le> y \<Longrightarrow> y \<le> x \<Longrightarrow> x = y" by (cases x; cases y; simp add: less_eq_severity_def)
  show "x \<le> y \<or> y \<le> x" by (auto simp: less_eq_severity_def)
qed

end

lemma is_positive_severity: "is_positive r \<longleftrightarrow> severity (code r) \<le> PositiveIntermediate"
  by (cases "severity (code r)") (simp_all add: is_positive_def less_eq_severity_def)

lemma code_number_mono: "code_number c \<le> code_number d \<Longrightarrow> severity c \<le> severity d"
proof (rule ccontr)
  assume le: "code_number c \<le> code_number d" and "\<not> severity c \<le> severity d"
  then have "unat (severity_u8 (severity d)) + 1 \<le> unat (severity_u8 (severity c))"
    by (simp add: less_eq_severity_def word_le_nat_alt)
  with le digit_bounds(2)[of "category d"] digit_bounds(3)[of "detail d"] show False
    by (simp add: code_number_def)
qed

lemma raw_reply_hd:
  "hd (raw_reply ls l) \<in> {CHR ''2'', CHR ''3'', CHR ''4'', CHR ''5''} \<and> raw_reply ls l \<noteq> []"
proof -
  have severity: "hd (severity_fmt s) \<in> {CHR ''2'', CHR ''3'', CHR ''4'', CHR ''5''}" "severity_fmt s \<noteq> []" for s
    by (cases s; simp add: severity_fmt_def digit_fmt_simps)+
  have "hd (reply_text d x) \<in> {CHR ''2'', CHR ''3'', CHR ''4'', CHR ''5''} \<and> reply_text d x \<noteq> []" for d x
    using severity[of "severity (fst x)"] by (auto simp: reply_text_def code_fmt_def)
  then show ?thesis by (cases ls) (simp_all add: raw_reply_def)
qed

section \<open>Properties\<close>

text \<open>
  C5: \<open>parse_response\<close> accepts exactly the replies with one code on all lines: it returns a
  response and the rest of the input iff the input is the text of that response followed by the
  rest. Parsing is thereby the inverse of writing, and no two responses share a text.
\<close>

theorem parse_response_exact:
  assumes "nom_api N"
  shows "parse_response N s = Inr (rest, r) \<longleftrightarrow> wf_response r \<and> s = reply_string r @ rest"
  using assms by (rule nom_api.parse_response_Inr_iff)

definition sample_response :: response where
  "sample_response =
     \<lparr>code = code_new PositiveCompletion MailSystem Zero, message = [''size 10'', ''help'']\<rparr>"

lemma sample_response_text:
  "wf_response sample_response"
  "reply_string sample_response = ''250-size 10'' @ crlf @ ''250 help'' @ crlf"
  by (simp_all add: sample_response_def wf_response_def code_new_def reply_string_def raw_reply_def
      reply_text_def code_fmt_def severity_fmt_def category_fmt_def detail_fmt_def digit_fmt_simps)

theorem parse_response_exact_witness:
  "parse_response nom_ref ((''250-size 10'' @ crlf @ ''250 help'' @ crlf) @ ''221'') =
     Inr (''221'', sample_response)"
  using parse_response_exact[OF ref_nom.nom_api_axioms] sample_response_text by metis

text \<open>
  C21: \<open>parse_response\<close> asks for more input exactly while the input is a proper prefix of
  some reply, so a reader that feeds it growing input neither stops early nor waits for too much.
\<close>

theorem parse_response_streaming:
  assumes "nom_api N"
  shows "(\<exists>n. parse_response N s = Inl (Incomplete n)) \<longleftrightarrow>
     (\<exists>ls l. (\<forall>x \<in> set ls. clean_line x) \<and> clean_line l \<and> strict_prefix s (raw_reply ls l))"
  using assms by (rule nom_api.parse_response_Incomplete_iff)

theorem parse_response_streaming_witness:
  "\<exists>n. parse_response nom_ref ''250-size'' = Inl (Incomplete n)"
proof -
  let ?l = "(code_new PositiveCompletion MailSystem Zero, ''size'')"
  have "clean_line ?l" "strict_prefix ''250-size'' (raw_reply [?l] ?l)"
    by (simp_all add: clean_line_def code_new_def raw_reply_def reply_text_def code_fmt_def
      severity_fmt_def category_fmt_def detail_fmt_def digit_fmt_simps strict_prefix_def)
  then show ?thesis
    by (intro parse_response_streaming[OF ref_nom.nom_api_axioms, THEN iffD2] exI[of _ "[?l]"] exI[of _ ?l])
      simp
qed

text \<open>
  C34: the two ways \<open>parse_response\<close> rejects its input. It fails for good, always with the kind
  \<open>Not\<close>, exactly on a complete multi-line reply one of whose continuation lines has another code
  than the last line. It fails with a recoverable error exactly on what neither begins with complete
  reply lines (of whatever codes) nor is a proper prefix of such lines, as a line without a code.
\<close>

theorem parse_response_rejects:
  assumes "nom_api N"
  shows "(parse_response N s = Inl (Failure f) \<longleftrightarrow> f = \<lparr>input = '''', code_kind = Not\<rparr> \<and>
      (\<exists>ls l r. s = raw_reply ls l @ r \<and> (\<forall>x \<in> set ls. clean_line x) \<and> clean_line l \<and>
        (\<exists>x \<in> set ls. fst x \<noteq> fst l))) \<and>
    ((\<exists>e. parse_response N s = Inl (Error e)) \<longleftrightarrow>
      \<not> (\<exists>ls l. (\<forall>x \<in> set ls. clean_line x) \<and> clean_line l \<and>
        (prefix (raw_reply ls l) s \<or> strict_prefix s (raw_reply ls l))))"
  by (intro conjI nom_api.parse_response_Failure_iff[OF assms] nom_api.parse_response_Error_iff[OF assms])

theorem parse_response_rejects_witness:
  "(\<exists>f. parse_response nom_ref (''250-a'' @ crlf @ ''251 b'' @ crlf) = Inl (Failure f)) \<and>
   (\<exists>e. parse_response nom_ref ''abc'' = Inl (Error e))"
proof
  let ?x = "(code_new PositiveCompletion MailSystem Zero, ''a'')"
    and ?l = "(code_new PositiveCompletion MailSystem One, ''b'')"
  have "clean_line ?x" "clean_line ?l" "fst ?x \<noteq> fst ?l"
    "''250-a'' @ crlf @ ''251 b'' @ crlf = raw_reply [?x] ?l @ []"
    by (simp_all add: clean_line_def code_new_def raw_reply_def reply_text_def code_fmt_def
      severity_fmt_def category_fmt_def detail_fmt_def digit_fmt_simps)
  then have "\<exists>ls l r. ''250-a'' @ crlf @ ''251 b'' @ crlf = raw_reply ls l @ r \<and>
      (\<forall>x \<in> set ls. clean_line x) \<and> clean_line l \<and> (\<exists>x \<in> set ls. fst x \<noteq> fst l)"
    by (intro exI[of _ "[?x]"] exI[of _ ?l] exI[of _ "[]"]) simp
  with parse_response_rejects[OF ref_nom.nom_api_axioms, THEN conjunct1,
      of "''250-a'' @ crlf @ ''251 b'' @ crlf" "\<lparr>input = [], code_kind = Not\<rparr>"]
  show "\<exists>f. parse_response nom_ref (''250-a'' @ crlf @ ''251 b'' @ crlf) = Inl (Failure f)" by simp
  have "\<not> prefix (raw_reply ls l) ''abc'' \<and> \<not> strict_prefix ''abc'' (raw_reply ls l)" for ls l
    using raw_reply_hd[of ls l] by (cases "raw_reply ls l") (auto simp: strict_prefix_def)
  with parse_response_rejects[OF ref_nom.nom_api_axioms, THEN conjunct2, of "''abc''"]
  show "\<exists>e. parse_response nom_ref ''abc'' = Inl (Error e)" by (simp only: simp_thms)
qed

text \<open>
  C35: \<open>has_code\<close>, which compares decimal texts, compares the three-digit number of the reply
  with its argument; \<open>is_positive\<close> holds exactly below 400, so the two cannot disagree.
\<close>

theorem code_is_its_number:
  "(has_code r n \<longleftrightarrow> code_number (code r) = unat n) \<and>
   (is_positive r \<longleftrightarrow> code_number (code r) < 400) \<and>
   200 \<le> code_number (code r) \<and> code_number (code r) < 600"
proof (intro conjI)
  have d: "unat (category_u8 (category (code r))) \<le> 5" "unat (detail_u8 (detail (code r))) \<le> 9"
    "unat (severity_u8 (severity (code r))) \<in> {2..5}" using digit_bounds by blast+
  then show "200 \<le> code_number (code r)" "code_number (code r) < 600"
    by (auto simp: code_number_def)
qed (rule has_code_iff is_positive_iff)+

end
