(* ===== verification/Base64.thy ===== *)
theory Base64
  imports Smtp_Prelude
begin

text \<open>
  The interface of the crate \<open>base64\<close> (version 0.13) the AUTH command uses:
  \<open>encode_config\<close> with the configuration \<open>STANDARD\<close>, and \<open>decode\<close>. Its code is not
  part of the repository, so both are parameters; the locale \<open>base64_api\<close> states what the
  documentation promises. The second half is an executable base64 codec (RFC 4648) that satisfies
  these laws.
\<close>

datatype decode_error = InvalidByte nat byte | InvalidLength | InvalidLastSymbol nat byte

record base64_lib =
  b64_encode :: "byte list \<Rightarrow> string"
  b64_decode :: "string \<Rightarrow> decode_error + byte list"

text \<open>The characters of the standard alphabet, in the order of their values, and the padding.\<close>

definition b64_alphabet :: string where
  "b64_alphabet = ''ABCDEFGHIJKLMNOPQRSTUVWXYZabcdefghijklmnopqrstuvwxyz0123456789+/''"

definition b64_padding :: char where "b64_padding = CHR ''=''"

locale base64_api =
  fixes B :: base64_lib
  assumes decode_encode: "b64_decode B (b64_encode B bs) = Inr bs"
    and encode_empty_input: "b64_encode B [] = []"
    and encode_alphabet: "c \<in> set (b64_encode B bs) \<Longrightarrow> c \<in> set b64_alphabet \<or> c = b64_padding"
begin

text \<open>An encoded text is one word of graphic characters: it cannot end the line it is put on.\<close>

lemma encode_graphic: "c \<in> set (b64_encode B bs) \<Longrightarrow> graphic c"
proof -
  assume "c \<in> set (b64_encode B bs)"
  then have "c \<in> set (b64_padding # b64_alphabet)" using encode_alphabet by auto
  moreover have "\<forall>d \<in> set (b64_padding # b64_alphabet). graphic d"
    by (simp add: b64_alphabet_def b64_padding_def graphic_def)
  ultimately show ?thesis by blast
qed

lemma encode_inject: "b64_encode B xs = b64_encode B ys \<longleftrightarrow> xs = ys"
  by (metis decode_encode Inr_inject)

lemma encode_eq_Nil: "b64_encode B bs = [] \<longleftrightarrow> bs = []"
  using encode_inject[of bs "[]"] by (simp add: encode_empty_input)

end

section \<open>A codec that satisfies the laws\<close>

definition b64_chr :: "nat \<Rightarrow> char" where
  "b64_chr n = b64_alphabet ! n"

definition b64_val :: "char \<Rightarrow> nat option" where
  "b64_val c = (let i = length (takeWhile (\<lambda>d. d \<noteq> c) b64_alphabet)
                in if i < 64 then Some i else None)"

fun ref_encode :: "byte list \<Rightarrow> string" where
  "ref_encode [] = []"
| "ref_encode [a] =
     [b64_chr (byte_val a div 4), b64_chr (byte_val a mod 4 * 16), b64_padding, b64_padding]"
| "ref_encode [a, b] =
     [b64_chr (byte_val a div 4), b64_chr (byte_val a mod 4 * 16 + byte_val b div 16),
      b64_chr (byte_val b mod 16 * 4), b64_padding]"
| "ref_encode (a # b # c # r) =
     b64_chr (byte_val a div 4) # b64_chr (byte_val a mod 4 * 16 + byte_val b div 16) #
     b64_chr (byte_val b mod 16 * 4 + byte_val c div 64) # b64_chr (byte_val c mod 64) # ref_encode r"

text \<open>One group of four characters; \<open>p\<close> is its position.\<close>

definition b64_group :: "nat \<Rightarrow> char \<Rightarrow> char \<Rightarrow> char \<Rightarrow> char \<Rightarrow> decode_error + byte list" where
  "b64_group p c1 c2 c3 c4 =
     (case b64_val c1 of None \<Rightarrow> Inl (InvalidByte p c1) | Some v1 \<Rightarrow>
     (case b64_val c2 of None \<Rightarrow> Inl (InvalidByte (p + 1) c2) | Some v2 \<Rightarrow>
      if c3 = b64_padding \<and> c4 = b64_padding then
        (if v2 mod 16 = 0 then Inr [char_of (v1 * 4 + v2 div 16)]
         else Inl (InvalidLastSymbol (p + 1) c2))
      else
     (case b64_val c3 of None \<Rightarrow> Inl (InvalidByte (p + 2) c3) | Some v3 \<Rightarrow>
      if c4 = b64_padding then
        (if v3 mod 4 = 0
         then Inr [char_of (v1 * 4 + v2 div 16), char_of (v2 mod 16 * 16 + v3 div 4)]
         else Inl (InvalidLastSymbol (p + 2) c3))
      else
     (case b64_val c4 of None \<Rightarrow> Inl (InvalidByte (p + 3) c4) | Some v4 \<Rightarrow>
        Inr [char_of (v1 * 4 + v2 div 16), char_of (v2 mod 16 * 16 + v3 div 4),
             char_of (v3 mod 4 * 64 + v4)]))))"

fun ref_decode_from :: "nat \<Rightarrow> string \<Rightarrow> decode_error + byte list" where
  "ref_decode_from p [] = Inr []"
| "ref_decode_from p (c1 # c2 # c3 # c4 # r) =
     (case b64_group p c1 c2 c3 c4 of Inl e \<Rightarrow> Inl e | Inr g \<Rightarrow>
        if length g < 3 \<and> r \<noteq> [] then Inl (InvalidByte (p + 3) c4)
        else (case ref_decode_from (p + 4) r of Inl e \<Rightarrow> Inl e | Inr bs \<Rightarrow> Inr (g @ bs)))"
| "ref_decode_from p _ = Inl InvalidLength"

definition base64_ref :: base64_lib where
  "base64_ref = \<lparr>b64_encode = ref_encode, b64_decode = ref_decode_from 0\<rparr>"

lemma b64_alphabet_props: "distinct b64_alphabet" "length b64_alphabet = 64" "b64_padding \<notin> set b64_alphabet"
  by (simp_all add: b64_alphabet_def b64_padding_def)

lemma takeWhile_nth_distinct:
  "distinct xs \<Longrightarrow> n < length xs \<Longrightarrow> length (takeWhile (\<lambda>d. d \<noteq> xs ! n) xs) = n"
proof (induction xs arbitrary: n)
  case (Cons x xs)
  then show ?case by (cases n) auto
qed simp

lemma b64_val_chr [simp]: "n < 64 \<Longrightarrow> b64_val (b64_chr n) = Some n"
  by (simp add: b64_val_def b64_chr_def takeWhile_nth_distinct b64_alphabet_props)

lemma b64_chr_in: "n < 64 \<Longrightarrow> b64_chr n \<in> set b64_alphabet"
  by (simp add: b64_chr_def b64_alphabet_props)

lemma b64_chr_not_padding [simp]: "n < 64 \<Longrightarrow> b64_chr n \<noteq> b64_padding"
  using b64_chr_in b64_alphabet_props(3) by metis

text \<open>Three bytes are four numbers below 64, and back.\<close>

lemma sextet_arith:
  fixes a b c :: nat
  assumes "a < 256" and "b < 256" and "c < 256"
  shows "a div 4 < 64" "a mod 4 * 16 < 64" "a mod 4 * 16 + b div 16 < 64" "b mod 16 * 4 < 64"
    "b mod 16 * 4 + c div 64 < 64" "c mod 64 < 64"
proof -
  have "b div 16 < 16" "c div 64 < 4" "a mod 4 < 4" "b mod 16 < 16" using assms by simp_all
  then show "a mod 4 * 16 < 64" "a mod 4 * 16 + b div 16 < 64" "b mod 16 * 4 < 64"
    "b mod 16 * 4 + c div 64 < 64" by linarith+
qed (use assms in simp_all)

lemma byte_arith:
  fixes a b c :: nat
  assumes "b < 256" and "c < 256"
  shows "a div 4 * 4 + (a mod 4 * 16 + b div 16) div 16 = a"
    "(a mod 4 * 16 + b div 16) mod 16 * 16 + (b mod 16 * 4 + c div 64) div 4 = b"
    "(b mod 16 * 4 + c div 64) mod 4 * 64 + c mod 64 = c"
proof -
  have "b div 16 < 16" "c div 64 < 4" using assms by simp_all
  then have e: "(a mod 4 * 16 + b div 16) div 16 = a mod 4"
    "(a mod 4 * 16 + b div 16) mod 16 = b div 16"
    "(b mod 16 * 4 + c div 64) div 4 = b mod 16" "(b mod 16 * 4 + c div 64) mod 4 = c div 64"
    by simp_all
  show "a div 4 * 4 + (a mod 4 * 16 + b div 16) div 16 = a"
    "(a mod 4 * 16 + b div 16) mod 16 * 16 + (b mod 16 * 4 + c div 64) div 4 = b"
    "(b mod 16 * 4 + c div 64) mod 4 * 64 + c mod 64 = c"
    unfolding e by simp_all
qed

lemmas sextet_bounds =
  sextet_arith[OF nat_of_char_less_256 nat_of_char_less_256 nat_of_char_less_256]

lemmas byte_sums = byte_arith[OF nat_of_char_less_256 nat_of_char_less_256]

lemma b64_group_one:
  "b64_group p (b64_chr (byte_val a div 4)) (b64_chr (byte_val a mod 4 * 16)) b64_padding b64_padding
     = Inr [a]"
  using byte_arith(1)[where a = "byte_val a" and b = 0 and c = 0]
  by (simp add: b64_group_def sextet_bounds)

lemma b64_group_two:
  "b64_group p (b64_chr (byte_val a div 4)) (b64_chr (byte_val a mod 4 * 16 + byte_val b div 16))
     (b64_chr (byte_val b mod 16 * 4)) b64_padding = Inr [a, b]"
proof -
  have "(byte_val b mod 16 * 4) mod 4 = (0 :: nat)" by simp
  moreover have "(byte_val a mod 4 * 16 + byte_val b div 16) mod 16 * 16 + byte_val b mod 16 * 4 div 4
      = (byte_val b :: nat)"
  proof -
    have "byte_val b div 16 < (16 :: nat)" by (rule less_mult_imp_div_less) simp
    then have "byte_val b div 16 mod 16 = (byte_val b div 16 :: nat)" by (rule mod_less)
    then show ?thesis by simp
  qed
  ultimately show ?thesis
    by (simp only: b64_group_def sextet_bounds b64_val_chr b64_chr_not_padding byte_sums
        option.case if_True if_False simp_thms char_of_char)
qed

lemma b64_group_three:
  "b64_group p (b64_chr (byte_val a div 4)) (b64_chr (byte_val a mod 4 * 16 + byte_val b div 16))
     (b64_chr (byte_val b mod 16 * 4 + byte_val c div 64)) (b64_chr (byte_val c mod 64)) = Inr [a, b, c]"
  by (simp only: b64_group_def sextet_bounds b64_val_chr b64_chr_not_padding byte_sums
      option.case if_False simp_thms char_of_char)

lemma ref_decode_encode: "ref_decode_from p (ref_encode bs) = Inr bs"
  by (induction bs arbitrary: p rule: ref_encode.induct)
    (simp_all add: b64_group_one b64_group_two b64_group_three)

lemma ref_encode_alphabet: "c \<in> set (ref_encode bs) \<Longrightarrow> c \<in> set b64_alphabet \<or> c = b64_padding"
  by (induction bs rule: ref_encode.induct) (auto simp: b64_chr_in sextet_bounds)

interpretation b64_ref: base64_api base64_ref
  by unfold_locales (auto simp: base64_ref_def ref_decode_encode dest: ref_encode_alphabet)

end
