(* ===== verification/Smtp_Error.thy ===== *)
theory Smtp_Error
  imports Smtp_Response Base64
begin

text \<open>
  \<open>src/error.rs\<close>: the error type, the conversions into it, and \<open>FromStr for Response\<close>
  of \<open>src/response.rs\<close>, which uses one of them. Payloads of foreign types are kept as the
  data the crate can see of them; how a foreign payload is displayed is a parameter
  (\<open>foreign_display\<close>). The outcome type of the asynchronous operations stands at the end: a
  value, an error, or a panic.
\<close>

section \<open>The error type\<close>

text \<open>\<open>std::io::Error\<close>: its kind and the text it displays.\<close>

datatype io_kind = Interrupted | UnexpectedEof | WriteZero | InvalidData | BrokenPipe | OtherKind

record io_error =
  io_kind :: io_kind
  io_text :: string

text \<open>
  \<open>FromUtf8Error\<close> keeps the bytes. The timeout errors of the runtimes are unit structures, an
  \<open>AddrParseError\<close> holds which kind of address was expected; nothing in the crate builds either.
\<close>

datatype elapsed = Elapsed

datatype addr_kind = AddrIp | AddrIpv4 | AddrIpv6 | AddrSocket | AddrSocketV4 | AddrSocketV6

datatype error =
  Transient response
| Permanent response
| ResponseParsing string
| ChallengeParsing decode_error
| Utf8Parsing "byte list"
| Client string
| Resolution
| Io io_error
| Parsing error_kind
| Timeout elapsed
| AddrParseError addr_kind

section \<open>Display\<close>

record foreign_display =
  show_decode_error :: "decode_error \<Rightarrow> string"
  show_utf8_error :: "byte list \<Rightarrow> string"
  debug_error_kind :: "error_kind \<Rightarrow> string"
  show_elapsed :: "elapsed \<Rightarrow> string"
  show_addr_error :: "addr_kind \<Rightarrow> string"

text \<open>The text of the attribute \<open>#[error(...)]\<close> shared by the first two variants.\<close>

definition response_detail :: "response \<Rightarrow> string" where
  "response_detail r =
     (if message r = [] then ''undetailed error during SMTP transaction''
      else join ''; '' (message r))"

fun error_fmt :: "foreign_display \<Rightarrow> error \<Rightarrow> string" where
  "error_fmt D (Transient r) = ''transient: '' @ response_detail r"
| "error_fmt D (Permanent r) = ''permanent: '' @ response_detail r"
| "error_fmt D (ResponseParsing s) = s"
| "error_fmt D (ChallengeParsing e) = ''challenge parsing: '' @ show_decode_error D e"
| "error_fmt D (Utf8Parsing bs) = ''utf8: '' @ show_utf8_error D bs"
| "error_fmt D (Client s) = ''client: '' @ s"
| "error_fmt D Resolution = ''could not resolve hostname''"
| "error_fmt D (Io e) = ''io: '' @ io_text e"
| "error_fmt D (Parsing k) = ''parsing: '' @ debug_error_kind D k"
| "error_fmt D (Timeout e) = ''timeout: '' @ show_elapsed D e"
| "error_fmt D (AddrParseError k) = ''address parse error: '' @ show_addr_error D k"

section \<open>Conversions\<close>

fun error_from_nom :: "nom_err \<Rightarrow> error" where
  "error_from_nom (Incomplete n) = Parsing Complete"
| "error_from_nom (Failure e) = Parsing (code_kind e)"
| "error_from_nom (Error e) = Parsing (code_kind e)"

definition error_from_response :: "response \<Rightarrow> error" where
  "error_from_response r = (case severity (code r) of
      TransientNegativeCompletion \<Rightarrow> Transient r
    | PermanentNegativeCompletion \<Rightarrow> Permanent r
    | _ \<Rightarrow> Client ''Unknown error code'')"

definition error_from_str :: "string \<Rightarrow> error" where
  "error_from_str s = Client s"

text \<open>\<open>FromStr for Response\<close>: what follows the reply in the text is dropped.\<close>

definition response_from_str :: "nom_lib \<Rightarrow> string \<Rightarrow> error + response" where
  "response_from_str N s = (case parse_response N s of
      Inl e \<Rightarrow> Inl (error_from_nom e)
    | Inr (_, r) \<Rightarrow> Inr r)"

section \<open>Outcomes of the asynchronous operations\<close>

datatype 'a outcome = Ok 'a | Err error | Panic

fun of_result :: "error + 'a \<Rightarrow> 'a outcome" where
  "of_result (Inl e) = Err e"
| "of_result (Inr x) = Ok x"

lemma error_from_response_positive:
  "error_from_response r = Client ''Unknown error code'' \<longleftrightarrow> is_positive r"
  by (cases "severity (code r)") (simp_all add: error_from_response_def is_positive_def)

lemma error_from_response_negative:
  "\<not> is_positive r \<Longrightarrow> error_from_response r =
     (if code_number (code r) < 500 then Transient r else Permanent r)"
  using digit_bounds(2)[of "category (code r)"] digit_bounds(3)[of "detail (code r)"]
  by (cases "severity (code r)")
    (simp_all add: error_from_response_def is_positive_def code_number_def)

context nom_api
begin

lemma response_from_str_Inr:
  "response_from_str N s = Inr r \<longleftrightarrow> wf_response r \<and> (\<exists>rest. s = reply_string r @ rest)"
proof -
  have "response_from_str N s = Inr r \<longleftrightarrow> (\<exists>rest. parse_response N s = Inr (rest, r))"
    by (auto simp: response_from_str_def split: sum.splits)
  then show ?thesis by (auto simp: parse_response_Inr_iff)
qed

end

end
