(* ===== verification/Async_Io.thy ===== *)
theory Async_Io
  imports Smtp_Error
begin

text \<open>
  The byte stream the client talks over. The code is generic in a type \<open>S: BufRead + Write\<close> of
  the asynchronous runtime, so the three operations it calls on it are one record of parameters,
  functions of an abstract state \<open>'s\<close> that stands for the connection and the peer. The locales
  state what the runtime documents about them, in terms of two observations: the bytes \<open>sent\<close>
  and the bytes \<open>received\<close> so far. The last section is an executable connection that satisfies
  the laws. An awaited call is a step of the model; cancellation is not modelled.
\<close>

section \<open>Operations and actions\<close>

record 's stream_ops =
  op_read_line :: "string \<Rightarrow> 's \<Rightarrow> (io_error + nat) \<times> string \<times> 's"
  op_write_all :: "byte list \<Rightarrow> 's \<Rightarrow> (io_error + unit) \<times> 's"
  op_flush :: "'s \<Rightarrow> (io_error + unit) \<times> 's"

text \<open>
  An asynchronous function of the stream: \<open>None\<close> if it never returns, otherwise its outcome and
  the state it leaves. \<open>bind_action\<close> is the sequencing with \<open>?\<close>.
\<close>

type_synonym ('s, 'a) action = "'s \<Rightarrow> ('a outcome \<times> 's) option"

definition return_action :: "'a \<Rightarrow> ('s, 'a) action" where
  "return_action x s = Some (Ok x, s)"

definition bind_action :: "('s, 'a) action \<Rightarrow> ('a \<Rightarrow> ('s, 'b) action) \<Rightarrow> ('s, 'b) action" where
  "bind_action m f s = (case m s of
      None \<Rightarrow> None
    | Some (o1, s') \<Rightarrow> (case o1 of
        Ok x \<Rightarrow> f x s'
      | Err e \<Rightarrow> Some (Err e, s')
      | Panic \<Rightarrow> Some (Panic, s')))"

text \<open>A value computed without the stream, an error of the runtime passed on by \<open>?\<close>.\<close>

definition lift_result :: "error + 'a \<Rightarrow> ('s, 'a) action" where
  "lift_result r s = Some (of_result r, s)"

definition lift_io :: "('s \<Rightarrow> (io_error + 'a) \<times> 's) \<Rightarrow> ('s, 'a) action" where
  "lift_io m s = (case m s of
      (Inl e, s') \<Rightarrow> Some (Err (Io e), s')
    | (Inr x, s') \<Rightarrow> Some (Ok x, s'))"

lemma bind_action_Ok:
  "bind_action m f s = Some (Ok y, s'') \<longleftrightarrow>
     (\<exists>x s'. m s = Some (Ok x, s') \<and> f x s' = Some (Ok y, s''))"
  by (auto simp: bind_action_def split: option.splits outcome.splits)

lemma bind_action_Panic:
  "bind_action m f s = Some (Panic, s'') \<longleftrightarrow>
     m s = Some (Panic, s'') \<or> (\<exists>x s'. m s = Some (Ok x, s') \<and> f x s' = Some (Panic, s''))"
  by (auto simp: bind_action_def split: option.splits outcome.splits)

lemma bind_action_Err:
  "bind_action m f s = Some (Err e, s'') \<longleftrightarrow>
     m s = Some (Err e, s'') \<or> (\<exists>x s'. m s = Some (Ok x, s') \<and> f x s' = Some (Err e, s''))"
  by (auto simp: bind_action_def split: option.splits outcome.splits)

lemma bind_action_assoc:
  "bind_action (bind_action m f) g = bind_action m (\<lambda>x. bind_action (f x) g)"
  by (rule ext) (auto simp: bind_action_def split: option.splits outcome.splits)

lemma bind_return [simp]:
  "bind_action (return_action x) f = f x" "bind_action m return_action = m"
  by (rule ext, auto simp: bind_action_def return_action_def split: option.splits outcome.splits)+

lemmas bind_results [smtp_simps] = bind_action_Ok bind_action_Panic bind_action_Err

section \<open>The laws\<close>

locale writer =
  fixes W :: "'s stream_ops"
    and sent :: "'s \<Rightarrow> byte list"
  assumes write_Ok: "op_write_all W bs s = (Inr u, s') \<Longrightarrow> sent s' = sent s @ bs"
    and write_Err: "op_write_all W bs s = (Inl e, s') \<Longrightarrow> \<exists>p. prefix p bs \<and> sent s' = sent s @ p"
    and flush_sent: "op_flush W s = (r, s') \<Longrightarrow> sent s' = sent s"

text \<open>
  \<open>read_line\<close> appends to the buffer the bytes up to and including the next line feed, or what
  is left before the end of the stream, and returns how many they are; it fails on bytes that are
  not valid UTF-8.
\<close>

definition line_chunk :: "byte list \<Rightarrow> bool" where
  "line_chunk l \<longleftrightarrow> LF \<notin> set (butlast l)"

locale smtp_wire = writer +
  fixes received :: "'s \<Rightarrow> byte list"
  assumes read_Ok: "op_read_line W buf s = (Inr n, buf', s') \<Longrightarrow>
      \<exists>l. line_chunk l \<and> utf8_valid l \<and> n = length l \<and> buf' = buf @ l \<and>
          received s' = received s @ l \<and> sent s' = sent s"
    and read_Err: "op_read_line W buf s = (Inl e, buf', s') \<Longrightarrow>
      sent s' = sent s \<and> prefix (received s) (received s')"
    and write_received: "op_write_all W bs s = (w, s') \<Longrightarrow> received s' = received s"
    and flush_received: "op_flush W s = (r, s') \<Longrightarrow> received s' = received s"

text \<open>
  A connection that does not fail, with a peer that is known: \<open>pending\<close> is what the peer has sent
  and the client has not read, \<open>answers\<close> is what the peer says to each of the next flushes.
  Reading takes the next line of what is pending.
\<close>

definition take_line :: "byte list \<Rightarrow> byte list" where
  "take_line bs = takeWhile (\<lambda>c. c \<noteq> LF) bs @ (if LF \<in> set bs then [LF] else [])"

locale live_wire = smtp_wire +
  fixes pending :: "'s \<Rightarrow> byte list"
    and answers :: "'s \<Rightarrow> byte list list"
  assumes write_live: "\<exists>s'. op_write_all W bs s = (Inr (), s') \<and>
      pending s' = pending s \<and> answers s' = answers s"
    and flush_live: "\<exists>s'. op_flush W s = (Inr (), s') \<and>
      pending s' = pending s @ concat (take 1 (answers s)) \<and> answers s' = drop 1 (answers s)"
    and read_live: "utf8_valid (take_line (pending s)) \<Longrightarrow>
      \<exists>s'. op_read_line W buf s = (Inr (length (take_line (pending s))), buf @ take_line (pending s), s') \<and>
           pending s' = drop (length (take_line (pending s))) (pending s) \<and> answers s' = answers s"

section \<open>A connection that satisfies the laws\<close>

text \<open>
  The peer is a list of reactions: each flush releases the next one. \<open>written\<close> and \<open>got\<close> are
  the bytes that went either way.
\<close>

record script =
  written :: "byte list"
  got :: "byte list"
  inbox :: "byte list"
  reactions :: "byte list list"

definition script_read_line :: "string \<Rightarrow> script \<Rightarrow> (io_error + nat) \<times> string \<times> script" where
  "script_read_line buf s =
     (let l = take_line (inbox s); s' = s\<lparr>inbox := drop (length l) (inbox s), got := got s @ l\<rparr> in
      if utf8_valid l then (Inr (length l), buf @ l, s')
      else (Inl \<lparr>io_kind = InvalidData, io_text = ''stream did not contain valid UTF-8''\<rparr>, buf, s'))"

definition script_write_all :: "byte list \<Rightarrow> script \<Rightarrow> (io_error + unit) \<times> script" where
  "script_write_all bs s = (Inr (), s\<lparr>written := written s @ bs\<rparr>)"

definition script_flush :: "script \<Rightarrow> (io_error + unit) \<times> script" where
  "script_flush s = (Inr (), (case reactions s of
      [] \<Rightarrow> s
    | r # rs \<Rightarrow> s\<lparr>inbox := inbox s @ r, reactions := rs\<rparr>))"

definition script_ops :: "script stream_ops" where
  "script_ops = \<lparr>op_read_line = script_read_line, op_write_all = script_write_all,
     op_flush = script_flush\<rparr>"

text \<open>A connection just opened: what the peer says first, and how it answers each flush.\<close>

definition connect :: "byte list \<Rightarrow> byte list list \<Rightarrow> script" where
  "connect greeting answers =
     \<lparr>written = [], got = [], inbox = greeting, reactions = answers\<rparr>"

lemma take_line_simps [simp]:
  "take_line [] = []" "take_line (c # bs) = (if c = LF then [LF] else c # take_line bs)"
  by (simp_all add: take_line_def)

lemma take_line_drop: "take_line bs @ drop (length (take_line bs)) bs = bs"
  by (induction bs) auto

lemma take_line_chunk: "line_chunk (take_line bs)"
proof -
  have "LF \<notin> set (takeWhile (\<lambda>c. c \<noteq> LF) bs)" by (auto dest: set_takeWhileD)
  then show ?thesis
    by (auto simp: line_chunk_def take_line_def butlast_append dest: in_set_butlastD)
qed

lemma take_line_append: "LF \<notin> set xs \<Longrightarrow> take_line (xs @ ys) = xs @ take_line ys"
  by (induction xs) auto

lemma take_line_whole: "LF \<in> set xs \<Longrightarrow> take_line (xs @ ys) = take_line xs"
  by (induction xs) auto

lemma utf8_cont_not_LF: "\<not> utf8_cont LF"
  by (simp add: utf8_cont_def)

text \<open>Lines of valid UTF-8 are valid UTF-8: a line feed is not part of a longer character.\<close>

lemma utf8_valid_take_line:
  "utf8_valid bs \<Longrightarrow> utf8_valid (take_line bs) \<and> utf8_valid (drop (length (take_line bs)) bs)"
proof (induction bs rule: utf8_valid.induct)
  case (2 c cs)
  show ?case
  proof (cases "c = LF")
    case True
    have "utf8_lead LF = Some (0, 0x80, 0xBF)" by (simp add: utf8_lead_def)
    with 2(2) True show ?thesis by simp
  next
    case False
    obtain n lo hi where lead: "utf8_lead c = Some (n, lo, hi)"
      using 2(2) by (cases "utf8_lead c") auto
    let ?xs = "take n cs" and ?ys = "drop n cs"
    have v: "n \<le> length cs" "0 < n \<longrightarrow> lo \<le> byte_val (hd cs) \<and> byte_val (hd cs) \<le> hi"
      "\<forall>d \<in> set ?xs. utf8_cont d" "utf8_valid ?ys"
      using 2(2) lead by simp_all
    have IH: "utf8_valid (take_line ?ys)" "utf8_valid (drop (length (take_line ?ys)) ?ys)"
      using 2(1)[OF lead refl refl v(4)] by simp_all
    have "LF \<notin> set ?xs" using v(3) utf8_cont_not_LF by blast
    then have cs: "take_line cs = ?xs @ take_line ?ys"
      using take_line_append[of ?xs ?ys] by simp
    have hd: "0 < n \<longrightarrow> hd (?xs @ t) = hd cs" for t using v(1) by (cases cs) (auto simp: take_Cons')
    have "utf8_valid (c # ?xs @ take_line ?ys)"
      using v IH(1) lead hd by simp
    moreover have "drop (length (c # ?xs @ take_line ?ys)) (c # cs) =
        drop (length (take_line ?ys)) ?ys"
      using v(1) by (simp add: add.commute)
    ultimately show ?thesis using False cs IH(2) by simp
  qed
qed simp

interpretation script_wire: live_wire script_ops written got inbox reactions
proof
  fix bs s s' buf buf' n e u w r
  show "op_write_all script_ops bs s = (Inr u, s') \<Longrightarrow> written s' = written s @ bs"
    by (auto simp: script_ops_def script_write_all_def)
  show "op_write_all script_ops bs s = (Inl e, s') \<Longrightarrow>
      \<exists>p. prefix p bs \<and> written s' = written s @ p"
    by (simp add: script_ops_def script_write_all_def)
  show "op_flush script_ops s = (r, s') \<Longrightarrow> written s' = written s"
    and "op_flush script_ops s = (r, s') \<Longrightarrow> got s' = got s"
    by (auto simp: script_ops_def script_flush_def split: list.splits)
  show "op_write_all script_ops bs s = (w, s') \<Longrightarrow> got s' = got s"
    by (auto simp: script_ops_def script_write_all_def)
  show "op_read_line script_ops buf s = (Inr n, buf', s') \<Longrightarrow>
      \<exists>l. line_chunk l \<and> utf8_valid l \<and> n = length l \<and> buf' = buf @ l \<and> got s' = got s @ l
        \<and> written s' = written s"
    by (intro exI[of _ "take_line (inbox s)"])
      (auto simp: script_ops_def script_read_line_def Let_def take_line_chunk split: if_splits)
  show "op_read_line script_ops buf s = (Inl e, buf', s') \<Longrightarrow>
      written s' = written s \<and> prefix (got s) (got s')"
    by (auto simp: script_ops_def script_read_line_def Let_def split: if_splits)
  show "\<exists>s'. op_write_all script_ops bs s = (Inr (), s') \<and> inbox s' = inbox s \<and>
      reactions s' = reactions s"
    by (auto simp: script_ops_def script_write_all_def)
  show "\<exists>s'. op_flush script_ops s = (Inr (), s') \<and>
      inbox s' = inbox s @ concat (take 1 (reactions s)) \<and> reactions s' = drop 1 (reactions s)"
    by (cases "reactions s") (auto simp: script_ops_def script_flush_def)
  show "utf8_valid (take_line (inbox s)) \<Longrightarrow>
      \<exists>s'. op_read_line script_ops buf s =
             (Inr (length (take_line (inbox s))), buf @ take_line (inbox s), s') \<and>
           inbox s' = drop (length (take_line (inbox s))) (inbox s) \<and> reactions s' = reactions s"
    by (auto simp: script_ops_def script_read_line_def Let_def)
qed

end
