(* ===== verification/Smtp_Codec.thy ===== *)
theory Smtp_Codec
  imports Async_Io
begin

text \<open>
  \<open>src/codec.rs\<close>: the transparency codec of the DATA phase. \<open>encode\<close> is the code: a byte
  counter that recognises CR LF and writes an extra dot before a dot that follows it, copying
  slices of the frame. \<open>stuff\<close> is the byte-wise encoding it computes. The receiver of RFC 5321,
  section 4.5.2, is specified at the end, with the messages for which the encoding is transparent
  and those for which it is not.
\<close>

section \<open>The code\<close>

record client_codec = escape_count :: u8

definition client_codec_new :: client_codec where
  "client_codec_new = \<lparr>escape_count = 0\<rparr>"

text \<open>The \<open>match\<close> on the counter; \<open>None\<close> is \<open>unreachable!()\<close>.\<close>

definition next_count :: "u8 \<Rightarrow> byte \<Rightarrow> u8 option" where
  "next_count k b =
     (if k = 0 then Some (if b = CR then 1 else 0)
      else if k = 1 then Some (if b = LF then 2 else 0)
      else if k = 2 then Some (if b = DOT then 3 else if b = CR then 1 else 0)
      else None)"

text \<open>\<open>&frame[i..j]\<close>, which panics out of bounds.\<close>

definition slice :: "byte list \<Rightarrow> nat \<Rightarrow> nat \<Rightarrow> byte list option" where
  "slice xs i j = (if i \<le> j \<and> j \<le> length xs then Some (take (j - i) (drop i xs)) else None)"

text \<open>
  The result of \<open>encode\<close>: \<open>None\<close> for a panic, otherwise the \<open>io::Result\<close>; with it the
  codec and the writer as they are left.
\<close>

type_synonym 's encode_result = "(io_error + unit) option \<times> client_codec \<times> 's"

fun encode_loop :: "'s stream_ops \<Rightarrow> byte list \<Rightarrow> nat \<Rightarrow> (nat \<times> byte) list \<Rightarrow> client_codec \<Rightarrow> 's
    \<Rightarrow> (io_error + nat) option \<times> client_codec \<times> 's" where
  "encode_loop W frame start [] k s = (Some (Inr start), k, s)"
| "encode_loop W frame start ((idx, b) # rest) k s =
     (case next_count (escape_count k) b of
        None \<Rightarrow> (None, k, s)
      | Some n \<Rightarrow>
          (let k = k\<lparr>escape_count := n\<rparr> in
           if escape_count k = 3 then
             (let k = k\<lparr>escape_count := 0\<rparr> in
              case slice frame start idx of
                None \<Rightarrow> (None, k, s)
              | Some chunk \<Rightarrow>
                  (case op_write_all W chunk s of
                     (Inl e, s) \<Rightarrow> (Some (Inl e), k, s)
                   | (Inr _, s) \<Rightarrow>
                       (case op_write_all W ''.'' s of
                          (Inl e, s) \<Rightarrow> (Some (Inl e), k, s)
                        | (Inr _, s) \<Rightarrow> encode_loop W frame idx rest k s)))
           else encode_loop W frame start rest k s))"

definition write_result :: "'s stream_ops \<Rightarrow> byte list \<Rightarrow> client_codec \<Rightarrow> 's \<Rightarrow> 's encode_result" where
  "write_result W bs k s = (case op_write_all W bs s of (r, s) \<Rightarrow> (Some r, k, s))"

definition encode :: "'s stream_ops \<Rightarrow> client_codec \<Rightarrow> byte list \<Rightarrow> 's \<Rightarrow> 's encode_result" where
  "encode W k frame s =
     (if length frame = 0 then
        (case (if escape_count k = 0 then write_result W (crlf @ ''.'' @ crlf) k s
               else if escape_count k = 1 then write_result W ([LF] @ ''.'' @ crlf) k s
               else if escape_count k = 2 then write_result W (''.'' @ crlf) k s
               else (None, k, s)) of
           (Some (Inr _), k, s) \<Rightarrow> (Some (Inr ()), k\<lparr>escape_count := 0\<rparr>, s)
         | r \<Rightarrow> r)
      else
        (case encode_loop W frame 0 (enumerate 0 frame) k s of
           (None, k, s) \<Rightarrow> (None, k, s)
         | (Some (Inl e), k, s) \<Rightarrow> (Some (Inl e), k, s)
         | (Some (Inr start), k, s) \<Rightarrow>
             (case slice frame start (length frame) of
                None \<Rightarrow> (None, k, s)
              | Some chunk \<Rightarrow> write_result W chunk k s)))"

section \<open>The encoding, byte by byte\<close>

definition esc :: "u8 \<Rightarrow> byte \<Rightarrow> u8" where
  "esc k b =
     (if k = 0 then (if b = CR then 1 else 0)
      else if k = 1 then (if b = LF then 2 else 0)
      else (if b = DOT then 0 else if b = CR then 1 else 0))"

fun stuff :: "u8 \<Rightarrow> byte list \<Rightarrow> byte list" where
  "stuff k [] = []"
| "stuff k (b # bs) = (if k = 2 \<and> b = DOT then [DOT, DOT] else [b]) @ stuff (esc k b) bs"

fun esc_after :: "u8 \<Rightarrow> byte list \<Rightarrow> u8" where
  "esc_after k [] = k"
| "esc_after k (b # bs) = esc_after (esc k b) bs"

lemma stuff_append: "stuff k (xs @ ys) = stuff k xs @ stuff (esc_after k xs) ys"
  by (induction xs arbitrary: k) auto

lemma esc_after_append: "esc_after k (xs @ ys) = esc_after (esc_after k xs) ys"
  by (induction xs arbitrary: k) auto

text \<open>The counter is at most 2 between two bytes.\<close>

definition codec_ok :: "client_codec \<Rightarrow> bool" where
  "codec_ok k \<longleftrightarrow> escape_count k \<in> {0, 1, 2}"

lemma esc_range: "esc k b \<in> {0, 1, 2}"
  by (simp add: esc_def)

lemma esc_after_range: "k \<in> {0, 1, 2} \<Longrightarrow> esc_after k bs \<in> {0, 1, 2}"
proof (induction bs arbitrary: k)
  case (Cons b bs)
  show ?case using Cons.IH[OF esc_range[of k b]] by simp
qed simp

lemma next_count_esc:
  assumes "k \<in> {0, 1, 2}"
  shows "next_count k b = Some (if k = 2 \<and> b = DOT then 3 else esc k b)" "esc k b \<noteq> 3"
    "k = 2 \<and> b = DOT \<Longrightarrow> esc k b = 0"
  using assms by (auto simp: next_count_def esc_def)

text \<open>
  The loop writes, of the encoding of the rest of the frame, all but the part the final slice
  holds: what it has written together with the slice from \<open>start\<close> is the encoding.
\<close>

lemma slice_last: "start \<le> length frame \<Longrightarrow> slice frame start (length frame) = Some (drop start frame)"
  by (simp add: slice_def)

lemma slice_next:
  assumes "frame = xs @ ys" and "start \<le> length xs"
  shows "slice frame start (length xs) = Some (drop start xs)"
  using assms by (simp add: slice_def)

text \<open>
  What the loop is to achieve: \<open>out\<close> is the encoding still to be written, \<open>kend\<close> the counter
  at the end of the frame, \<open>before\<close> and \<open>after\<close> the bytes sent before and after it.
\<close>

definition loop_result :: "byte list \<Rightarrow> byte list \<Rightarrow> u8 \<Rightarrow> (io_error + nat) option \<Rightarrow> u8
    \<Rightarrow> byte list \<Rightarrow> byte list \<Rightarrow> bool" where
  "loop_result frame out kend r k' before after \<longleftrightarrow> (case r of
      None \<Rightarrow> False
    | Some (Inl e) \<Rightarrow> \<exists>p. prefix p out \<and> after = before @ p
    | Some (Inr start) \<Rightarrow>
        start \<le> length frame \<and> k' = kend \<and>
        (\<exists>q. after = before @ q \<and> q @ drop start frame = out))"

lemma loop_result_written:
  "loop_result frame out kend r k' (before @ q) after \<Longrightarrow>
   loop_result frame (q @ out) kend r k' before after"
  by (auto simp: loop_result_def split: option.splits sum.splits)

lemma loop_result_Err:
  "prefix p out \<Longrightarrow> loop_result frame out kend (Some (Inl e)) k' before (before @ p)"
  by (auto simp: loop_result_def)

context writer
begin

text \<open>
  \<open>pre\<close> is the part of the frame before the loop's position; what is written so far and the slice
  that is still due agree with the encoding of \<open>pre\<close>.
\<close>

lemma encode_loop_writes:
  assumes "frame = pre @ bs" and "start \<le> length pre" and "escape_count k \<in> {0, 1, 2}"
    and "encode_loop W frame start (enumerate (length pre) bs) k s = (r, k', s')"
  shows "loop_result frame (drop start pre @ stuff (escape_count k) bs)
    (esc_after (escape_count k) bs) r (escape_count k') (sent s) (sent s')"
  using assms
proof (induction bs arbitrary: pre start k s)
  case Nil
  then show ?case by (auto simp: loop_result_def)
next
  case (Cons b bs)
  note next_eq = next_count_esc[OF Cons.prems(3), of b]
  have frame': "frame = (pre @ [b]) @ bs" using Cons.prems(1) by simp
  have enum: "enumerate (length pre) (b # bs) = (length pre, b) # enumerate (length (pre @ [b])) bs"
    by simp
  show ?case
  proof (cases "escape_count k = 2 \<and> b = DOT")
    case False
    let ?k = "k\<lparr>escape_count := esc (escape_count k) b\<rparr>"
    have range: "escape_count ?k \<in> {0, 1, 2}" using esc_range by simp
    have start: "start \<le> length (pre @ [b])" using Cons.prems(2) by simp
    have "encode_loop W frame start (enumerate (length (pre @ [b])) bs) ?k s = (r, k', s')"
      using Cons.prems(4) next_eq False unfolding enum by (simp add: Let_def)
    from Cons.IH[OF frame' start range this] show ?thesis
      using Cons.prems(2) False by auto
  next
    case True
    let ?k = "k\<lparr>escape_count := 0\<rparr>"
    have sl: "slice frame start (length pre) = Some (drop start pre)"
      using slice_next[OF Cons.prems(1,2)] .
    have out: "stuff (escape_count k) (b # bs) = [DOT, DOT] @ stuff 0 bs"
      using True next_eq by simp
    obtain w1 s1 where w1: "op_write_all W (drop start pre) s = (w1, s1)" by fastforce
    show ?thesis
    proof (cases w1)
      case (Inl e)
      then obtain p where p: "prefix p (drop start pre)" "sent s1 = sent s @ p"
        using write_Err w1 by blast
      have "r = Some (Inl e)" "s' = s1"
        using Cons.prems(4) next_eq True sl w1 Inl unfolding enum by (simp_all add: Let_def)
      with p show ?thesis by (simp add: loop_result_Err prefix_prefix)
    next
      case (Inr u)
      have sent1: "sent s1 = sent s @ drop start pre" using write_Ok w1 Inr by blast
      obtain w2 s2 where w2: "op_write_all W ''.'' s1 = (w2, s2)" by fastforce
      show ?thesis
      proof (cases w2)
        case (Inl e)
        then obtain p where p: "prefix p [DOT]" "sent s2 = sent s1 @ p"
          using write_Err w2 by blast
        have "r = Some (Inl e)" "s' = s2"
          using Cons.prems(4) next_eq True sl w1 w2 Inl \<open>w1 = Inr u\<close> unfolding enum
          by (simp_all add: Let_def)
        moreover have "prefix (drop start pre @ p) (drop start pre @ stuff (escape_count k) (b # bs))"
          using p(1) unfolding out by (auto simp: prefix_Cons)
        ultimately show ?thesis using p(2) sent1 loop_result_Err by fastforce
      next
        case (Inr v)
        have sent2: "sent s2 = sent s @ drop start pre @ [DOT]"
          using write_Ok w2 Inr sent1 by fastforce
        have "encode_loop W frame (length pre) (enumerate (length (pre @ [b])) bs) ?k s2 = (r, k', s')"
          using Cons.prems(4) next_eq True sl w1 w2 Inr \<open>w1 = Inr u\<close> unfolding enum
          by (simp add: Let_def)
        from Cons.IH[OF frame' _ _ this]
        have "loop_result frame (DOT # stuff 0 bs) (esc_after 0 bs) r (escape_count k')
            (sent s @ drop start pre @ [DOT]) (sent s')"
          using True sent2 by simp
        from loop_result_written[OF this] show ?thesis
          using True next_eq(3) unfolding out by simp
      qed
    qed
  qed
qed

lemma encode_writes:
  assumes "codec_ok k" and "frame \<noteq> []" and "encode W k frame s = (r, k', s')"
  obtains (finished) "r = Some (Inr ())" "sent s' = sent s @ stuff (escape_count k) frame"
      "escape_count k' = esc_after (escape_count k) frame"
  | (failed) e p where "r = Some (Inl e)" "sent s' = sent s @ p"
      "prefix p (stuff (escape_count k) frame)"
proof -
  obtain r1 k1 s1 where loop: "encode_loop W frame 0 (enumerate 0 frame) k s = (r1, k1, s1)"
    by (cases "encode_loop W frame 0 (enumerate 0 frame) k s") auto
  note * = encode_loop_writes[of frame "[]" frame 0 k s r1 k1 s1]
  show thesis
  proof (cases r1)
    case None
    then show ?thesis using * loop assms(1) by (simp add: codec_ok_def loop_result_def)
  next
    case (Some x)
    show ?thesis
    proof (cases x)
      case (Inl e)
      then show ?thesis
        using * loop assms Some by (auto simp: codec_ok_def encode_def loop_result_def intro: failed)
    next
      case (Inr start)
      then have st: "start \<le> length frame" "escape_count k1 = esc_after (escape_count k) frame"
        "\<exists>q. sent s1 = sent s @ q \<and> q @ drop start frame = stuff (escape_count k) frame"
        using * loop assms(1) Some by (simp_all add: codec_ok_def loop_result_def)
      then obtain q where q: "sent s1 = sent s @ q" "q @ drop start frame = stuff (escape_count k) frame"
        by blast
      obtain w s2 where w: "op_write_all W (drop start frame) s1 = (w, s2)" by fastforce
      have res: "r = Some w" "k' = k1" "s' = s2"
        using assms(2,3) loop Some Inr w st(1)
        by (simp_all add: encode_def slice_last write_result_def)
      show ?thesis
      proof (cases w)
        case (Inl e)
        then obtain p where "prefix p (drop start frame)" "sent s2 = sent s1 @ p"
          using write_Err w by blast
        with q res Inl show ?thesis by (intro failed[of e "q @ p"]) (auto simp: q(2)[symmetric])
      next
        case (Inr u)
        then have "sent s2 = sent s1 @ drop start frame" using write_Ok w by blast
        then show ?thesis using res Inr st by (intro finished) (auto simp: q)
      qed
    qed
  qed
qed

end

text \<open>
  An empty frame is not empty on the wire: the codec writes an end-of-data mark, of which it
  leaves out what the counter says has been sent before.
\<close>

definition end_mark :: "u8 \<Rightarrow> byte list" where
  "end_mark k = (if k = 0 then crlf @ ''.'' @ crlf else if k = 1 then [LF] @ ''.'' @ crlf
     else ''.'' @ crlf)"

context writer
begin

lemma encode_empty:
  assumes "codec_ok k" and "encode W k [] s = (r, k', s')"
  obtains (finished) "r = Some (Inr ())" "sent s' = sent s @ end_mark (escape_count k)"
      "escape_count k' = 0"
  | (failed) e p where "r = Some (Inl e)" "sent s' = sent s @ p" "prefix p (end_mark (escape_count k))"
proof -
  obtain w s1 where w: "op_write_all W (end_mark (escape_count k)) s = (w, s1)" by fastforce
  have enc: "encode W k [] s = (case w of Inl e \<Rightarrow> (Some (Inl e), k, s1)
      | Inr _ \<Rightarrow> (Some (Inr ()), k\<lparr>escape_count := 0\<rparr>, s1))"
    using assms(1) w
    by (auto simp: encode_def end_mark_def codec_ok_def write_result_def split: sum.splits)
  show thesis
  proof (cases w)
    case (Inl e)
    with w enc assms(2) show ?thesis using write_Err failed by fastforce
  next
    case (Inr u)
    with w enc assms(2) show ?thesis using write_Ok finished by fastforce
  qed
qed

lemma encode_no_panic: "codec_ok k \<Longrightarrow> encode W k frame s \<noteq> (None, k', s')"
proof
  assume k: "codec_ok k" and enc: "encode W k frame s = (None, k', s')"
  show False
  proof (cases "frame = []")
    case True
    with enc have "encode W k [] s = (None, k', s')" by simp
    with k show ?thesis by (cases rule: encode_empty) simp_all
  next
    case False
    from k False enc show ?thesis by (cases rule: encode_writes) simp_all
  qed
qed

lemma encode_codec_ok:
  assumes "codec_ok k" and "encode W k frame s = (Some (Inr ()), k', s')"
  shows "codec_ok k'"
proof (cases "frame = []")
  case True
  with assms(2) have "encode W k [] s = (Some (Inr ()), k', s')" by simp
  with assms(1) show ?thesis by (cases rule: encode_empty) (simp_all add: codec_ok_def)
next
  case False
  from assms(1) False assms(2) show ?thesis
  proof (cases rule: encode_writes)
    case finished
    then show ?thesis
      using assms(1) esc_after_range[of "escape_count k" frame] by (simp only: codec_ok_def)
  qed simp
qed

end

section \<open>The receiver\<close>

text \<open>
  RFC 5321, section 4.5.2: the receiver reads lines; a line that is a single dot ends the data,
  and of any other line that begins with a dot the dot is removed. The result is the message
  received and what follows the end of the data, or \<open>None\<close> if the data does not end.
\<close>

definition undot :: "string \<Rightarrow> string" where
  "undot l = (case l of [] \<Rightarrow> [] | c # t \<Rightarrow> if c = DOT then t else l)"

fun receive_acc :: "string \<Rightarrow> byte list \<Rightarrow> (byte list \<times> byte list) option" where
  "receive_acc acc (a # b # r) =
     (if a = CR \<and> b = LF then
        (if acc = ''.'' then Some ([], r)
         else map_option (\<lambda>(m, q). (undot acc @ crlf @ m, q)) (receive_acc [] r))
      else receive_acc (acc @ [a]) (b # r))"
| "receive_acc acc _ = None"

definition receive_data :: "byte list \<Rightarrow> (byte list \<times> byte list) option" where
  "receive_data bs = receive_acc [] bs"

lemma receive_acc_line:
  "\<not> has_crlf l \<Longrightarrow> receive_acc acc (l @ CR # LF # r) =
     (if acc @ l = ''.'' then Some ([], r)
      else map_option (\<lambda>(m, q). (undot (acc @ l) @ crlf @ m, q)) (receive_acc [] r))"
proof (induction l arbitrary: acc)
  case (Cons a l)
  then have IH: "receive_acc (acc @ [a]) (l @ CR # LF # r) =
     (if acc @ a # l = ''.'' then Some ([], r)
      else map_option (\<lambda>(m, q). (undot (acc @ a # l) @ crlf @ m, q)) (receive_acc [] r))"
    using Cons.IH[of "acc @ [a]"] by (cases l) auto
  obtain b t where bt: "l @ CR # LF # r = b # t" "\<not> (a = CR \<and> b = LF)"
    using Cons.prems by (cases l) auto
  then have "receive_acc acc (a # b # t) = receive_acc (acc @ [a]) (b # t)"
    by (simp only: receive_acc.simps if_False)
  then show ?case using IH bt(1) by simp
qed simp

lemma receive_data_line:
  "\<not> has_crlf l \<Longrightarrow> receive_data (l @ CR # LF # r) =
     (if l = ''.'' then Some ([], r)
      else map_option (\<lambda>(m, q). (undot l @ crlf @ m, q)) (receive_data r))"
  by (simp add: receive_data_def receive_acc_line)

section \<open>Lines under the encoding\<close>

fun has_double_cr :: "byte list \<Rightarrow> bool" where
  "has_double_cr (a # b # r) = ((a = CR \<and> b = CR) \<or> has_double_cr (b # r))"
| "has_double_cr _ = False"

lemma has_double_cr_append:
  "has_double_cr (s @ t) \<longleftrightarrow>
     has_double_cr s \<or> has_double_cr t \<or> (s \<noteq> [] \<and> t \<noteq> [] \<and> last s = CR \<and> hd t = CR)"
  by (induction s rule: has_double_cr.induct; cases t) auto

text \<open>A line written at the start of a line gets a dot in front if it begins with one.\<close>

definition dotted :: "u8 \<Rightarrow> string \<Rightarrow> string" where
  "dotted k l = (if k = 2 \<and> l \<noteq> [] \<and> hd l = DOT then DOT # l else l)"

lemma stuff_within_line:
  "\<not> has_crlf l \<Longrightarrow> \<not> has_double_cr l \<Longrightarrow>
   (k = 1 \<longrightarrow> l \<noteq> [] \<longrightarrow> hd l \<noteq> CR \<and> hd l \<noteq> LF) \<Longrightarrow> k \<in> {0, 1} \<Longrightarrow>
   stuff k l = l \<and> esc_after k l = (if l = [] then k else if last l = CR then 1 else 0)"
proof (induction l arbitrary: k)
  case (Cons b l)
  have "\<not> has_crlf l" "\<not> has_double_cr l" using Cons.prems by (cases l; auto)+
  moreover have "esc k b = (if b = CR then 1 else 0)" using Cons.prems(3,4) by (auto simp: esc_def)
  moreover have "b = CR \<longrightarrow> l \<noteq> [] \<longrightarrow> hd l \<noteq> CR \<and> hd l \<noteq> LF"
    using Cons.prems(1,2) by (cases l) auto
  ultimately show ?case using Cons.IH[of "esc k b"] Cons.prems(4) by auto
qed simp

lemma stuff_line_start:
  assumes "\<not> has_crlf l" and "\<not> has_double_cr l" and "k \<in> {0, 2}"
  shows "stuff k l = dotted k l"
    and "esc_after k l = (if l = [] then k else if last l = CR then 1 else 0)"
proof -
  have "stuff k l = dotted k l \<and> esc_after k l = (if l = [] then k else if last l = CR then 1 else 0)"
  proof (cases l)
    case (Cons b t)
    have "\<not> has_crlf t" "\<not> has_double_cr t" using assms(1,2) Cons by (cases t; auto)+
    moreover have "b = CR \<longrightarrow> t \<noteq> [] \<longrightarrow> hd t \<noteq> CR \<and> hd t \<noteq> LF"
      using assms(1,2) Cons by (cases t) auto
    moreover have "esc k b = (if b = CR then 1 else 0)" using assms(3) by (auto simp: esc_def)
    ultimately have "stuff (esc k b) t = t \<and>
        esc_after (esc k b) t = (if t = [] then esc k b else if last t = CR then 1 else 0)"
      using stuff_within_line[of t "esc k b"] by auto
    then show ?thesis
      using assms(3) Cons \<open>esc k b = _\<close> by (auto simp: dotted_def)
  qed (simp add: dotted_def)
  then show "stuff k l = dotted k l"
    and "esc_after k l = (if l = [] then k else if last l = CR then 1 else 0)" by simp_all
qed

lemma stuff_line:
  assumes "\<not> has_crlf l" and "\<not> has_double_cr (l @ crlf)" and "k \<in> {0, 2}"
  shows "stuff k (l @ CR # LF # r) = dotted k l @ CR # LF # stuff 2 r"
proof -
  have l: "\<not> has_double_cr l" "l \<noteq> [] \<Longrightarrow> last l \<noteq> CR"
    using assms(2) by (auto simp: has_double_cr_append)
  then have "esc_after k l \<in> {0, 2}"
    using stuff_line_start(2)[OF assms(1) l(1) assms(3)] assms(3) by auto
  then have "stuff (esc_after k l) (CR # LF # r) = CR # LF # stuff 2 r"
    by (auto simp: esc_def)
  then show ?thesis
    using stuff_line_start(1)[OF assms(1) l(1) assms(3)] by (simp add: stuff_append)
qed

lemma undot_dotted: "undot (dotted 2 l) = l" "dotted 2 l \<noteq> ''.''"
  by (auto simp: undot_def dotted_def split: list.splits)

lemma dotted_no_crlf: "\<not> has_crlf l \<Longrightarrow> \<not> has_crlf (dotted k l)"
  by (cases l) (auto simp: dotted_def)

text \<open>
  The whole message: the end of the data is found where it was put, and the message received is
  the message sent with a CRLF at its end.
\<close>

definition data_end :: "byte list" where
  "data_end = crlf @ ''.'' @ crlf"

lemma receive_end: "receive_data (''.'' @ crlf @ rest) = Some ([], rest)"
  using receive_data_line[of "''.''" rest] by simp

lemma receive_stuffed:
  assumes "\<not> has_double_cr m" and "k = 2 \<or> (k = 0 \<and> (m = [] \<or> hd m \<noteq> DOT))"
  shows "receive_data (stuff k m @ data_end @ rest) = Some (m @ crlf, rest)"
  using assms
proof (induction "length m" arbitrary: m k rule: less_induct)
  case less
  have k: "k \<in> {0, 2}" using less.prems(2) by auto
  have good: "undot (dotted k l) = l" "dotted k l \<noteq> ''.''"
    if "l = [] \<or> (m \<noteq> [] \<and> hd l = hd m)" for l
    using less.prems(2) that undot_dotted
    by (auto simp: dotted_def undot_def split: list.splits)
  show ?case
  proof (cases "has_crlf m")
    case False
    have "stuff k m = dotted k m"
      using stuff_line_start(1)[OF False less.prems(1) k] .
    then show ?thesis
      using receive_data_line[OF dotted_no_crlf[OF False], of k "''.'' @ crlf @ rest"]
        good[of m] receive_end[of rest]
      by (auto simp: data_end_def)
  next
    case True
    then obtain l r where lr: "m = l @ CR # LF # r" "\<not> has_crlf l" using has_crlf_split by blast
    have "\<not> has_double_cr (l @ crlf)" "\<not> has_double_cr r"
      using less.prems(1) lr(1) has_double_cr_append[of "l @ crlf" r] by auto
    then have st: "stuff k m = dotted k l @ CR # LF # stuff 2 r"
      and IH: "receive_data (stuff 2 r @ data_end @ rest) = Some (r @ crlf, rest)"
      using stuff_line[OF lr(2) _ k] less.hyps[of r 2] lr(1) by auto
    have "l = [] \<or> (m \<noteq> [] \<and> hd l = hd m)" using lr(1) by (cases l) auto
    with good[of l] IH lr(1) show ?thesis
      using receive_data_line[OF dotted_no_crlf[OF lr(2)], of k "stuff 2 r @ data_end @ rest"]
      unfolding st by simp
  qed
qed

section \<open>The contract with the DATA phase\<close>

text \<open>Reading a number of bodies one after the other.\<close>

fun receive_bodies :: "nat \<Rightarrow> byte list \<Rightarrow> byte list list option" where
  "receive_bodies 0 bs = (if bs = [] then Some [] else None)"
| "receive_bodies (Suc n) bs = (case receive_data bs of
      None \<Rightarrow> None
    | Some (m, rest) \<Rightarrow> map_option (Cons m) (receive_bodies n rest))"

text \<open>
  What the stream relies on when it sends a body: for a \<open>plain\<close> message, the receiver takes the
  encoded body up to the mark that ends it for the message, and finds what follows intact.
\<close>

locale body_encoding =
  fixes encode_body :: "byte list \<Rightarrow> byte list"
    and plain :: "byte list \<Rightarrow> bool"
  assumes transparent: "plain m \<Longrightarrow>
      receive_data (encode_body m @ data_end @ rest) = Some (m @ crlf, rest)"
begin

lemma body_inject:
  assumes "plain m" and "plain m'" and "encode_body m @ data_end @ r = encode_body m' @ data_end @ r'"
  shows "m = m' \<and> r = r'"
proof -
  have "Some (m @ crlf, r) = Some (m' @ crlf, r')"
    using transparent[OF assms(1), of r, unfolded assms(3)] transparent[OF assms(2), of r']
    by (rule trans[OF sym])
  then show ?thesis by simp
qed

text \<open>Bodies sent one after the other are received one after the other.\<close>

lemma bodies_in_sequence:
  "\<forall>m \<in> set ms. plain m \<Longrightarrow>
   receive_bodies (length ms) (concat (map (\<lambda>m. encode_body m @ data_end) ms)) =
     Some (map (\<lambda>m. m @ crlf) ms)"
  by (induction ms) (simp_all add: transparent)

end

definition plain_message :: "byte list \<Rightarrow> bool" where
  "plain_message m \<longleftrightarrow> \<not> has_double_cr m \<and> (m = [] \<or> hd m \<noteq> DOT)"

interpretation codec_body: body_encoding "stuff 0" plain_message
  by unfold_locales (simp add: plain_message_def receive_stuffed)

section \<open>The encoding by lines\<close>

text \<open>
  Transparency as RFC 5321, section 4.5.2 states it: the sender checks the first character of each
  line of the text and, if it is a dot, inserts one more in front of the line.
\<close>

definition dot_line :: "string \<Rightarrow> string" where
  "dot_line l = (case l of [] \<Rightarrow> [] | c # _ \<Rightarrow> if c = DOT then DOT # l else l)"

definition rfc_stuff :: "byte list \<Rightarrow> byte list" where
  "rfc_stuff m = (case crlf_lines m of (ls, q) \<Rightarrow>
     concat (map (\<lambda>l. dot_line l @ crlf) ls) @ dot_line q)"

lemma dot_line_dotted: "dot_line l = dotted 2 l" "l = [] \<or> hd l \<noteq> DOT \<Longrightarrow> dot_line l = dotted 0 l"
  by (auto simp: dot_line_def dotted_def split: list.splits)

lemma rfc_stuff_line: "\<not> has_crlf l \<Longrightarrow> rfc_stuff (l @ CR # LF # r) = dot_line l @ crlf @ rfc_stuff r"
  by (simp add: rfc_stuff_def crlf_lines_line split: prod.splits)

lemma rfc_stuff_last: "\<not> has_crlf l \<Longrightarrow> rfc_stuff l = dot_line l"
  by (simp add: rfc_stuff_def crlf_lines_no_crlf)

lemma stuff_rfc:
  assumes "\<not> has_double_cr m" and "k = 2 \<or> (k = 0 \<and> (m = [] \<or> hd m \<noteq> DOT))"
  shows "stuff k m = rfc_stuff m"
  using assms
proof (induction "length m" arbitrary: m k rule: less_induct)
  case less
  have k: "k \<in> {0, 2}" using less.prems(2) by auto
  have dot: "dotted k l = dot_line l" if "l = [] \<or> (m \<noteq> [] \<and> hd l = hd m)" for l
    using less.prems(2) that dot_line_dotted by auto
  show ?case
  proof (cases "has_crlf m")
    case False
    then show ?thesis
      using stuff_line_start(1)[OF False less.prems(1) k] dot[of m] rfc_stuff_last by auto
  next
    case True
    obtain l r where m: "m = l @ CR # LF # r" and l: "\<not> has_crlf l" using has_crlf_split True by blast
    have r: "\<not> has_double_cr r" "\<not> has_double_cr (l @ crlf)"
      using less.prems(1) has_double_cr_append[of "l @ crlf" r] m by auto
    have "stuff 2 r = rfc_stuff r" using less.hyps[of r 2] m r(1) by simp
    moreover have "dotted k l = dot_line l" by (rule dot) (use m in \<open>cases l, auto\<close>)
    ultimately show ?thesis
      unfolding m by (simp only: stuff_line[OF l r(2) k] rfc_stuff_line[OF l] append_Cons append_Nil)
  qed
qed

section \<open>What the encoder does to the rest of the state\<close>

text \<open>A property of the state that a write keeps is kept by the encoder.\<close>

lemma encode_loop_keeps:
  assumes wr: "\<And>bs s w s'. op_write_all W bs s = (w, s') \<Longrightarrow> Q s \<Longrightarrow> Q s'"
  shows "encode_loop W frame start ibs k s = (r, k', s') \<Longrightarrow> Q s \<Longrightarrow> Q s'"
proof (induction ibs arbitrary: start k s)
  case (Cons ib rest)
  obtain idx b where ib: "ib = (idx, b)" by (cases ib)
  obtain w1 s1 where w1: "op_write_all W (the (slice frame start idx)) s = (w1, s1)" by fastforce
  obtain w2 s2 where w2: "op_write_all W ''.'' s1 = (w2, s2)" by fastforce
  have "Q s1" "Q s2" using wr w1 w2 Cons.prems(2) by blast+
  then show ?case
    using Cons ib w1 w2
    by (auto simp: Let_def split: option.splits if_splits sum.splits)
qed simp

lemma encode_keeps:
  assumes wr: "\<And>bs s w s'. op_write_all W bs s = (w, s') \<Longrightarrow> Q s \<Longrightarrow> Q s'"
    and "encode W k frame s = (r, k', s')" and "Q s"
  shows "Q s'"
proof (cases "frame = []")
  case True
  then show ?thesis
    using assms(2,3)
    by (auto simp: encode_def write_result_def dest: wr split: if_splits prod.splits option.splits sum.splits)
next
  case False
  obtain r1 k1 s1 where loop: "encode_loop W frame 0 (enumerate 0 frame) k s = (r1, k1, s1)"
    by (cases "encode_loop W frame 0 (enumerate 0 frame) k s") auto
  have "Q s1" using encode_loop_keeps[of W Q, OF wr loop assms(3)] .
  then show ?thesis
    using assms(2) loop False
    by (auto simp: encode_def write_result_def dest: wr split: prod.splits option.splits sum.splits)
qed

text \<open>An error of the encoder is an error of a write.\<close>

lemma encode_loop_no_error:
  assumes wr: "\<And>bs s. fst (op_write_all W bs s) = Inr ()"
  shows "encode_loop W frame start ibs k s \<noteq> (Some (Inl e), k', s')"
proof (induction ibs arbitrary: start k s)
  case (Cons ib rest)
  obtain idx b where ib: "ib = (idx, b)" by (cases ib)
  obtain s1 where w1: "op_write_all W (the (slice frame start idx)) s = (Inr (), s1)"
    using wr by (metis prod.collapse)
  obtain s2 where w2: "op_write_all W ''.'' s1 = (Inr (), s2)" using wr by (metis prod.collapse)
  show ?case using Cons ib w1 w2 by (auto simp: Let_def split: option.splits)
qed simp

lemma encode_no_error:
  assumes wr: "\<And>bs s. fst (op_write_all W bs s) = Inr ()"
  shows "encode W k frame s \<noteq> (Some (Inl e), k', s')"
proof
  assume enc: "encode W k frame s = (Some (Inl e), k', s')"
  have write_result: "write_result W bs k s \<noteq> (Some (Inl e), k', s')" for bs k s
    using wr[of bs s] by (auto simp: write_result_def split: prod.splits)
  show False
  proof (cases "frame = []")
    case True
    with enc write_result show False
      by (auto simp: encode_def split: if_splits prod.splits option.splits sum.splits)
  next
    case False
    obtain r1 k1 s1 where loop: "encode_loop W frame 0 (enumerate 0 frame) k s = (r1, k1, s1)"
      by (cases "encode_loop W frame 0 (enumerate 0 frame) k s") auto
    with encode_loop_no_error[of W, OF wr] enc write_result False show False
      by (auto simp: encode_def split: prod.splits option.splits sum.splits)
  qed
qed

section \<open>Messages that are not transparent\<close>

text \<open>
  A dot at the very start of the message is not doubled, since the counter starts at 0 and not at 2.
\<close>

lemma stuff_leading_dot: "stuff 0 (DOT # CR # LF # m) = DOT # CR # LF # stuff 2 m"
  by (simp add: esc_def)

lemma receive_leading_dot:
  "receive_data (stuff 0 (DOT # CR # LF # m) @ rest) = Some ([], stuff 2 m @ rest)"
  using receive_end[of "stuff 2 m @ rest"] by (simp only: stuff_leading_dot append_Cons append_Nil)

text \<open>
  After a CR the counter forgets a second CR, so the line feed after it is not seen as the end of a
  line, and a dot after that is not doubled.
\<close>

lemma stuff_no_cr: "CR \<notin> set x \<Longrightarrow> stuff 0 x = x \<and> esc_after 0 x = 0"
proof (induction x)
  case (Cons a x)
  then have "a \<noteq> CR" by auto
  then have "esc 0 a = 0" by (simp add: esc_def)
  with Cons show ?case by simp
qed simp

lemma stuff_double_cr:
  assumes "CR \<notin> set x"
  shows "stuff 0 (x @ CR # CR # LF # DOT # CR # LF # m) = x @ CR # CR # LF # DOT # CR # LF # stuff 2 m"
  using stuff_no_cr[OF assms] by (simp add: stuff_append esc_def)

lemma receive_double_cr:
  assumes "CR \<notin> set x" and "x = [] \<or> hd x \<noteq> DOT"
  shows "receive_data (stuff 0 (x @ CR # CR # LF # DOT # CR # LF # m) @ rest) =
    Some (x @ [CR] @ crlf, stuff 2 m @ rest)"
proof -
  have "\<not> has_crlf (x @ [CR])"
  proof (rule ccontr)
    assume "\<not> \<not> has_crlf (x @ [CR])"
    then obtain l r where "x @ [CR] = l @ CR # LF # r" using has_crlf_split by blast
    then have "butlast (x @ [CR]) = butlast (l @ CR # LF # r)" by (rule arg_cong)
    then have "CR \<in> set x" by (simp add: butlast_append)
    with assms(1) show False by simp
  qed
  moreover have "x @ [CR] \<noteq> ''.''" by (cases x) auto
  moreover have "undot (x @ [CR]) = x @ [CR]" using assms(2) by (cases x) (auto simp: undot_def)
  ultimately show ?thesis
    using receive_data_line[of "x @ [CR]" "''.'' @ crlf @ stuff 2 m @ rest"]
      receive_end[of "stuff 2 m @ rest"]
    unfolding stuff_double_cr[OF assms(1)] by simp
qed

section \<open>Several frames\<close>

text \<open>The codec keeps its counter between two calls of \<open>encode\<close>: a message cut into frames.\<close>

fun encode_frames :: "'s stream_ops \<Rightarrow> client_codec \<Rightarrow> byte list list \<Rightarrow> 's \<Rightarrow> 's encode_result" where
  "encode_frames W k [] s = (Some (Inr ()), k, s)"
| "encode_frames W k (m # ms) s = (case encode W k m s of
      (Some (Inr _), k, s) \<Rightarrow> encode_frames W k ms s
    | r \<Rightarrow> r)"

context writer
begin

lemma encode_frames_writes:
  assumes "codec_ok k" and "[] \<notin> set ms" and "encode_frames W k ms s = (Some (Inr ()), k', s')"
  shows "sent s' = sent s @ stuff (escape_count k) (concat ms) \<and>
    escape_count k' = esc_after (escape_count k) (concat ms)"
  using assms
proof (induction ms arbitrary: k s)
  case (Cons m ms)
  obtain k1 s1 where 1: "encode W k m s = (Some (Inr ()), k1, s1)"
    and 2: "encode_frames W k1 ms s1 = (Some (Inr ()), k', s')"
    using Cons.prems(3) by (auto split: prod.splits option.splits sum.splits)
  have "m \<noteq> []" using Cons.prems(2) by auto
  from Cons.prems(1) this 1 have m: "sent s1 = sent s @ stuff (escape_count k) m"
    "escape_count k1 = esc_after (escape_count k) m" by (cases rule: encode_writes; simp)+
  have "codec_ok k1" using encode_codec_ok[OF Cons.prems(1) 1] .
  with Cons.IH[of k1 s1] 2 Cons.prems(2) m show ?case by (simp add: stuff_append esc_after_append)
qed simp

end

section \<open>Properties\<close>

text \<open>
  C4: on a frame that is not empty, \<open>encode\<close>, which cuts the frame at the dots to double and writes slices of it, is
  equivalent to encoding byte by byte: if it succeeds it has written exactly the stuffed frame and
  left the counter the frame leads to; if it fails, with an error of the writer, it has written a
  prefix; and it never panics (its slices are in bounds and its counter never reaches
  \<open>unreachable!\<close>).
\<close>

theorem encode_stuffs:
  assumes "writer W sent" and "codec_ok k" and "frame \<noteq> []" and "encode W k frame s = (r, k', s')"
  shows "(r = Some (Inr ()) \<and> sent s' = sent s @ stuff (escape_count k) frame \<and>
      escape_count k' = esc_after (escape_count k) frame \<and> codec_ok k') \<or>
    (\<exists>e p. r = Some (Inl e) \<and> prefix p (stuff (escape_count k) frame) \<and> sent s' = sent s @ p)"
  using writer.encode_writes[OF assms] writer.encode_codec_ok[OF assms(1,2)] assms(4) by metis

theorem encode_stuffs_witness:
  "\<exists>r k' s'. encode script_ops client_codec_new (''a'' @ crlf @ ''.b'') (connect [] []) = (r, k', s') \<and>
    r = Some (Inr ()) \<and> written s' = ''a'' @ crlf @ ''..b''"
proof -
  obtain r k' s' where e: "encode script_ops client_codec_new (''a'' @ crlf @ ''.b'') (connect [] []) = (r, k', s')"
    by (metis surj_pair)
  have "fst (op_write_all script_ops bs s) = Inr ()" for bs s
    by (simp add: script_ops_def script_write_all_def)
  then have "r \<noteq> Some (Inl x)" for x using encode_no_error e by metis
  then show ?thesis
    using encode_stuffs[OF script_wire.writer_axioms _ _ e] e
    by (auto simp: codec_ok_def client_codec_new_def connect_def esc_def)
qed




end
