(* ===== verification/Smtp_Authentication.thy ===== *)
theory Smtp_Authentication
  imports Smtp_Error
begin

text \<open>
  \<open>src/authentication.rs\<close>: credentials and the SASL mechanisms. The locale
  \<open>sasl_mechanism\<close> is the contract between the mechanisms and the AUTH command: a mechanism
  that supports an initial response answers without a challenge, any other refuses to.
\<close>

datatype mechanism = Plain | Login | Xoauth2

record credentials =
  authentication_identity :: string
  secret :: string

definition DEFAULT_ENCRYPTED_MECHANISMS :: "mechanism list" where
  "DEFAULT_ENCRYPTED_MECHANISMS = [Plain, Login]"

definition DEFAULT_UNENCRYPTED_MECHANISMS :: "mechanism list" where
  "DEFAULT_UNENCRYPTED_MECHANISMS = []"

definition credentials_new :: "string \<Rightarrow> string \<Rightarrow> credentials" where
  "credentials_new username password =
     \<lparr>authentication_identity = username, secret = password\<rparr>"

text \<open>The two implementations of \<open>IntoCredentials\<close>.\<close>

definition into_credentials_self :: "credentials \<Rightarrow> credentials" where
  "into_credentials_self c = c"

definition into_credentials_pair :: "string \<times> string \<Rightarrow> credentials" where
  "into_credentials_pair p = (case p of (username, password) \<Rightarrow> credentials_new username password)"

fun mechanism_fmt :: "mechanism \<Rightarrow> string" where
  "mechanism_fmt Plain = ''PLAIN''"
| "mechanism_fmt Login = ''LOGIN''"
| "mechanism_fmt Xoauth2 = ''XOAUTH2''"

fun supports_initial_response :: "mechanism \<Rightarrow> bool" where
  "supports_initial_response Plain = True"
| "supports_initial_response Xoauth2 = True"
| "supports_initial_response Login = False"

fun mechanism_response :: "mechanism \<Rightarrow> credentials \<Rightarrow> string option \<Rightarrow> error + string" where
  "mechanism_response Plain c challenge =
     (case challenge of
        Some _ \<Rightarrow> Inl (Client ''This mechanism does not expect a challenge'')
      | None \<Rightarrow> Inr ([NUL] @ authentication_identity c @ [NUL] @ secret c))"
| "mechanism_response Login c challenge =
     (case challenge of
        None \<Rightarrow> Inl (Client ''This mechanism does expect a challenge'')
      | Some decoded_challenge \<Rightarrow>
          if decoded_challenge \<in> set [''User Name'', ''Username:'', ''Username'']
          then Inr (authentication_identity c)
          else if decoded_challenge \<in> set [''Password'', ''Password:'']
          then Inr (secret c)
          else Inl (Client ''Unrecognized challenge''))"
| "mechanism_response Xoauth2 c challenge =
     (case challenge of
        Some _ \<Rightarrow> Inl (Client ''This mechanism does not expect a challenge'')
      | None \<Rightarrow>
          Inr (''user='' @ authentication_identity c @ [CHR 0x01] @ ''auth=Bearer '' @ secret c
               @ [CHR 0x01, CHR 0x01]))"

section \<open>The contract with the AUTH command\<close>

locale sasl_mechanism =
  fixes initial :: "'m \<Rightarrow> bool"
    and response :: "'m \<Rightarrow> credentials \<Rightarrow> string option \<Rightarrow> error + string"
  assumes initial_responds: "initial m \<Longrightarrow> \<exists>r. response m c None = Inr r"
    and challenge_required: "\<not> initial m \<Longrightarrow> \<exists>e. response m c None = Inl (Client e)"
    and challenge_refused: "initial m \<Longrightarrow> \<exists>e. response m c (Some ch) = Inl (Client e)"
begin

lemma responds_iff: "(\<exists>r. response m c None = Inr r) \<longleftrightarrow> initial m"
  using initial_responds challenge_required by (metis Inl_Inr_False)

text \<open>What the AUTH command does with a mechanism when it has no challenge never fails.\<close>

lemma opening_response:
  "\<exists>r. (if initial m \<or> (None :: string option) \<noteq> None
        then (case response m c None of Inl e \<Rightarrow> Inl e | Inr r \<Rightarrow> Inr (Some r))
        else Inr None) = (Inr r :: error + string option) \<and> (r \<noteq> None \<longleftrightarrow> initial m)"
  using initial_responds[of m c] by auto

end

interpretation sasl: sasl_mechanism supports_initial_response mechanism_response
proof
  fix m c ch
  show "supports_initial_response m \<Longrightarrow> \<exists>r. mechanism_response m c None = Inr r"
    by (cases m) auto
  show "\<not> supports_initial_response m \<Longrightarrow> \<exists>e. mechanism_response m c None = Inl (Client e)"
    by (cases m) auto
  show "supports_initial_response m \<Longrightarrow> \<exists>e. mechanism_response m c (Some ch) = Inl (Client e)"
    by (cases m) auto
qed

lemma mechanism_response_Client:
  "mechanism_response m c ch = Inl e \<Longrightarrow> \<exists>s. e = Client s"
  by (cases m) (auto split: option.splits if_splits)

lemma mechanism_fmt_graphic: "\<forall>c \<in> set (mechanism_fmt m). graphic c" "mechanism_fmt m \<noteq> []"
  by (cases m; simp add: graphic_def)+

text \<open>
  The PLAIN message has the fields of RFC 4616 (authorization identity, authentication identity,
  password), which can be read back when the first one, here empty, and the second hold no NUL.
\<close>

definition plain_fields :: "string \<Rightarrow> (string \<times> string \<times> string) option" where
  "plain_fields s =
     (let authz = takeWhile (\<lambda>c. c \<noteq> NUL) s; r = dropWhile (\<lambda>c. c \<noteq> NUL) s in
      case r of [] \<Rightarrow> None
      | _ # r \<Rightarrow>
        (let authc = takeWhile (\<lambda>c. c \<noteq> NUL) r; q = dropWhile (\<lambda>c. c \<noteq> NUL) r in
         case q of [] \<Rightarrow> None | _ # password \<Rightarrow> Some (authz, authc, password)))"

lemma plain_fields_response:
  assumes "NUL \<notin> set (authentication_identity c)"
    and "mechanism_response Plain c None = Inr r"
  shows "plain_fields r = Some ([], authentication_identity c, secret c)"
proof -
  have r: "r = NUL # authentication_identity c @ NUL # secret c" using assms(2) by simp
  have "\<forall>x \<in> set (authentication_identity c). x \<noteq> NUL" using assms(1) by auto
  then show ?thesis
    by (simp add: r plain_fields_def takeWhile_append2 dropWhile_append2)
qed

end
