(* ===== verification/Smtp_Util.thy ===== *)
theory Smtp_Util
  imports Smtp_Prelude
begin

text \<open>
  \<open>src/util.rs\<close>: the xtext encoding of parameter values. \<open>xtext_loop\<close> is the loop of
  \<open>Display for XText\<close> with its slices and its \<open>expect\<close> (a panic is the result
  \<open>None\<close>); \<open>xtext\<close> is the character-wise encoding it computes, and \<open>xtext_decode\<close>
  the decoder of RFC 3461, section 4.
\<close>

section \<open>The code\<close>

definition xtext_special :: "byte \<Rightarrow> bool" where
  "xtext_special c \<longleftrightarrow> byte_val c < (0x21 :: nat) \<or> c = CHR ''+'' \<or> c = CHR ''=''"

text \<open>\<open>str::find\<close> with a predicate: the byte index of the first character satisfying it.\<close>

fun find_index :: "(byte \<Rightarrow> bool) \<Rightarrow> string \<Rightarrow> nat option" where
  "find_index P [] = None"
| "find_index P (c # s) = (if P c then Some 0 else map_option Suc (find_index P s))"

text \<open>
  \<open>char_indices\<close>: the index of the second character, if there is one. The length of the first
  one is read off its lead byte.
\<close>

definition char_len :: "byte \<Rightarrow> nat" where
  "char_len c = (if byte_val c < (0x80 :: nat) then 1 else if byte_val c < (0xE0 :: nat) then 2
     else if byte_val c < (0xF0 :: nat) then 3 else 4)"

definition second_index :: "string \<Rightarrow> nat option" where
  "second_index s = (case s of [] \<Rightarrow> None
     | c # _ \<Rightarrow> if char_len c < length s then Some (char_len c) else None)"

lemma find_index_Some:
  "find_index P s = Some i \<Longrightarrow> i < length s \<and> P (s ! i) \<and> (\<forall>j < i. \<not> P (s ! j))"
proof (induction s arbitrary: i)
  case (Cons c s)
  then show ?case by (auto split: if_splits simp: less_Suc_eq_0_disj)
qed simp

lemma second_index_le: "second_index s = Some i \<Longrightarrow> 0 < i \<and> i < length s"
  by (auto simp: second_index_def char_len_def split: list.splits if_splits)

function xtext_loop :: "string \<Rightarrow> string \<Rightarrow> string option" where
  "xtext_loop out rest =
     (case find_index xtext_special rest of
        None \<Rightarrow> Some (out @ rest)
      | Some idx \<Rightarrow>
          (let start = take idx rest; tail = drop idx rest; out = out @ start in
           case tail of
             [] \<Rightarrow> None
           | c # _ \<Rightarrow>
               (let out = out @ ''+'' @ hex_upper (byte_val c) in
                case second_index tail of
                  Some idx \<Rightarrow> xtext_loop out (drop idx tail)
                | None \<Rightarrow> xtext_loop out [])))"
  by pat_completeness auto
termination
  by (relation "measure (\<lambda>(out, rest). length rest)")
    (auto dest!: find_index_Some second_index_le)

declare xtext_loop.simps [simp del]

definition xtext_fmt :: "string \<Rightarrow> string option" where
  "xtext_fmt s = xtext_loop [] s"

section \<open>What it computes\<close>

definition xtext_char :: "byte \<Rightarrow> string" where
  "xtext_char c = (if xtext_special c then CHR ''+'' # hex_upper (byte_val c) else [c])"

definition xtext :: "string \<Rightarrow> string" where
  "xtext s = concat (map xtext_char s)"

lemma xtext_simps [simp]: "xtext [] = []" "xtext (c # s) = xtext_char c @ xtext s"
  "xtext (s @ t) = xtext s @ xtext t"
  by (simp_all add: xtext_def)

lemma find_index_None: "find_index P s = None \<longleftrightarrow> (\<forall>c \<in> set s. \<not> P c)"
  by (induction s) auto

lemma find_index_split:
  "find_index P s = Some i \<Longrightarrow>
     s = take i s @ s ! i # drop (Suc i) s \<and> P (s ! i) \<and> (\<forall>c \<in> set (take i s). \<not> P c)"
  using find_index_Some[of P s i]
  by (auto simp: id_take_nth_drop[symmetric] in_set_conv_nth)

lemma xtext_plain: "\<forall>c \<in> set s. \<not> xtext_special c \<Longrightarrow> xtext s = s"
  by (induction s) (simp_all add: xtext_char_def)

lemma special_ascii: "xtext_special c \<Longrightarrow> char_len c = 1"
  by (auto simp: xtext_special_def char_len_def)

lemma xtext_loop_Nil: "xtext_loop out [] = Some out"
  by (subst xtext_loop.simps) simp

lemma xtext_loop_eq: "xtext_loop out rest = Some (out @ xtext rest)"
proof (induction out rest rule: xtext_loop.induct)
  case (1 out rest)
  show ?case
  proof (cases "find_index xtext_special rest")
    case None
    moreover from None have "xtext rest = rest" by (simp add: xtext_plain find_index_None)
    ultimately show ?thesis by (subst xtext_loop.simps) simp
  next
    case (Some i)
    define c where "c = rest ! i"
    have s: "rest = take i rest @ c # drop (Suc i) rest" "xtext_special c"
      "\<forall>c \<in> set (take i rest). \<not> xtext_special c"
      using find_index_split[OF Some] by (simp_all add: c_def)
    have tail: "drop i rest = c # drop (Suc i) rest"
      using find_index_Some[OF Some] by (simp add: c_def Cons_nth_drop_Suc)
    have "xtext rest = xtext (take i rest) @ xtext_char c @ xtext (drop (Suc i) rest)"
      by (subst s(1)) simp
    then have x: "xtext rest = take i rest @ CHR ''+'' # hex_upper (byte_val c) @ xtext (drop (Suc i) rest)"
      using s(2,3) by (simp add: xtext_plain xtext_char_def)
    show ?thesis
    proof (cases "drop (Suc i) rest = []")
      case True
      then have "second_index (drop i rest) = None"
        by (simp add: tail second_index_def special_ascii[OF s(2)])
      with x True show ?thesis
        by (subst xtext_loop.simps) (simp add: Some tail xtext_loop_Nil)
    next
      case False
      then have "second_index (drop i rest) = Some 1"
        by (simp add: tail second_index_def special_ascii[OF s(2)])
      with 1(2)[OF Some refl refl refl tail refl, of 1] x show ?thesis
        by (subst xtext_loop.simps) (simp add: Some tail)
    qed
  qed
qed

lemma xtext_fmt_eq: "xtext_fmt s = Some (xtext s)"
  by (simp add: xtext_fmt_def xtext_loop_eq)

text \<open>The encoded text holds no space, no control character and no equals sign.\<close>

lemma hex_digit_val: "n < 16 \<Longrightarrow> byte_val (digit_char n) = (if n < 10 then 48 + n else 55 + n)"
  by (simp add: digit_char_def)

lemma digit_char_not_special: "d < 16 \<Longrightarrow> \<not> xtext_special (digit_char d)"
proof
  assume d: "d < 16" and s: "xtext_special (digit_char d)"
  have "byte_val (digit_char d) \<in> {48..57} \<union> {65..70}"
    using d by (auto simp: hex_digit_val)
  then have "digit_char d \<noteq> CHR ''+''" "digit_char d \<noteq> CHR ''=''" "\<not> byte_val (digit_char d) < (33::nat)"
    by auto
  with s show False by (simp add: xtext_special_def)
qed

lemma xtext_clean: "c \<in> set (xtext s) \<Longrightarrow> c = CHR ''+'' \<or> \<not> xtext_special c"
proof (induction s)
  case (Cons a s)
  then show ?case
    using hex_upper_digits[of "byte_val a"] digit_char_not_special
    by (auto simp: xtext_char_def split: if_splits)
qed simp

section \<open>The decoder of RFC 3461\<close>

text \<open>
  Section 4: xtext is a sequence of xchars, which are the ASCII characters from 33 to 126 without
  the plus and the equals sign, and hexchars, a plus sign with two upper-case hexadecimal digits.
\<close>

definition hex_value :: "char \<Rightarrow> nat option" where
  "hex_value c = (let x = byte_val c in
     if 48 \<le> x \<and> x \<le> 57 then Some (x - 48) else if 65 \<le> x \<and> x \<le> 70 then Some (x - 55) else None)"

fun xtext_decode :: "string \<Rightarrow> string option" where
  "xtext_decode [] = Some []"
| "xtext_decode (c # s) =
     (if c = CHR ''+'' then
        (case s of a # b # r \<Rightarrow>
           (case (hex_value a, hex_value b) of
              (Some x, Some y) \<Rightarrow> map_option ((#) (char_of (16 * x + y))) (xtext_decode r)
            | _ \<Rightarrow> None)
         | _ \<Rightarrow> None)
      else if 33 \<le> byte_val c \<and> byte_val c \<le> (126 :: nat) \<and> c \<noteq> CHR ''=''
      then map_option ((#) c) (xtext_decode s)
      else None)"

lemma hex_value_digit [simp]: "n < 16 \<Longrightarrow> hex_value (digit_char n) = Some n"
  by (auto simp: hex_value_def hex_digit_val Let_def)

lemma hex_upper_two:
  assumes "16 \<le> n" and "n < 256"
  shows "hex_upper n = [digit_char (n div 16), digit_char (n mod 16)]"
proof -
  have "n div 16 < 16" using assms by simp
  with assms show ?thesis by (simp add: hex_upper.simps[of n] hex_upper.simps[of "n div 16"])
qed

lemma hex_upper_one: "n < 16 \<Longrightarrow> hex_upper n = [digit_char n]"
  by (simp add: hex_upper.simps)

lemma xtext_decode_char:
  assumes "16 \<le> byte_val c" and "byte_val c \<le> 126"
  shows "xtext_decode (xtext_char c @ s) = map_option ((#) c) (xtext_decode s)"
proof (cases "xtext_special c")
  case True
  have "byte_val c < (256 :: nat)" by simp
  moreover from this have "byte_val c div 16 < (16 :: nat)" by (simp add: less_mult_imp_div_less)
  moreover have "16 * (byte_val c div 16) + byte_val c mod 16 = (byte_val c :: nat)" by simp
  ultimately show ?thesis
    using assms True by (simp add: xtext_char_def hex_upper_two)
next
  case False
  then show ?thesis using assms by (auto simp: xtext_char_def xtext_special_def)
qed

lemma xtext_decode_xtext:
  "\<forall>c \<in> set s. 16 \<le> byte_val c \<and> byte_val c \<le> 126 \<Longrightarrow> xtext_decode (xtext s) = Some s"
  by (induction s) (simp_all add: xtext_decode_char)

lemma xtext_decode_plain:
  "\<not> xtext_special c \<Longrightarrow> xtext_decode (c # x) =
     (if byte_val c \<le> 126 then map_option ((#) c) (xtext_decode x) else None)"
  by (auto simp: xtext_special_def)

text \<open>
  A text that decodes at all decodes to a value that is no longer, and shorter if a character
  below 0x10 was written with one digit, which then takes the character after it as the second.
\<close>

lemma xtext_decode_length:
  assumes "xtext_decode (xtext s) = Some t"
  shows "length t \<le> length s \<and>
    (length t = length s \<longrightarrow> (\<forall>c \<in> set s. 16 \<le> byte_val c \<and> byte_val c \<le> 126))"
  using assms
proof (induction "length s" arbitrary: s t rule: less_induct)
  case less
  show ?case
  proof (cases s)
    case Nil
    with less.prems show ?thesis by simp
  next
    case (Cons c r)
    consider (plain) "\<not> xtext_special c" | (two) "xtext_special c" "16 \<le> byte_val c"
      | (one) "xtext_special c" "byte_val c < 16" by linarith
    then show ?thesis
    proof cases
      case plain
      then obtain t' where "t = c # t'" "xtext_decode (xtext r) = Some t'" "byte_val c \<le> 126"
        using less.prems Cons xtext_decode_plain[OF plain] by (auto simp: xtext_char_def split: if_splits)
      moreover have "33 \<le> byte_val c" using plain by (simp add: xtext_special_def)
      ultimately show ?thesis using less.hyps[of r t'] Cons by auto
    next
      case two
      then have "byte_val c \<le> 126" by (auto simp: xtext_special_def)
      with two obtain t' where "t = c # t'" "xtext_decode (xtext r) = Some t'"
        using less.prems Cons xtext_decode_char[of c "xtext r"] by auto
      then show ?thesis using less.hyps[of r t'] Cons two \<open>byte_val c \<le> 126\<close> by auto
    next
      case one
      then have x: "xtext s = CHR ''+'' # digit_char (byte_val c) # xtext r"
        using Cons by (simp add: xtext_char_def hex_upper_one)
      have plus: "hex_value (CHR ''+'') = None" by (simp add: hex_value_def)
      obtain d r' where r: "r = d # r'" "\<not> xtext_special d"
        using less.prems x plus
        by (cases r) (auto simp: xtext_char_def split: if_splits option.splits)
      then obtain t' where "xtext_decode (xtext r') = Some t'" "length t = Suc (length t')"
        using less.prems x by (auto simp: xtext_char_def split: option.splits)
      then show ?thesis using less.hyps[of r' t'] Cons r by auto
    qed
  qed
qed

section \<open>Properties\<close>

text \<open>
  C27: \<open>XText\<close>, written as a loop over slices that looks for the next special character,
  never reaches its \<open>expect\<close> and writes each character on its own: a plus sign and the code in
  upper-case hexadecimal for a special character, any other character as it is.
\<close>

theorem xtext_display: "xtext_fmt s = Some (concat (map xtext_char s))"
  by (simp add: xtext_fmt_eq flip: xtext_def)

text \<open>
  C28: a decoder of RFC 3461 reads back what \<open>XText\<close> has written exactly for the values whose
  bytes are all between 0x10 and 0x7E: any control character below that, and any byte from 0x7F on,
  so any character outside ASCII, is lost or makes the output no xtext at all.
\<close>

theorem xtext_roundtrip_exact:
  "(\<exists>x. xtext_fmt s = Some x \<and> xtext_decode x = Some s) \<longleftrightarrow>
     (\<forall>c \<in> set s. 16 \<le> byte_val c \<and> byte_val c \<le> 126)"
  using xtext_decode_xtext[of s] xtext_decode_length[of s s] by (auto simp: xtext_fmt_eq)

theorem xtext_roundtrip_exact_witness:
  "(\<exists>x. xtext_fmt ''a+b c'' = Some x \<and> xtext_decode x = Some ''a+b c'') \<and>
   \<not> (\<exists>x. xtext_fmt [CHR 0xC3, CHR 0xB8] = Some x \<and> xtext_decode x = Some [CHR 0xC3, CHR 0xB8])"
  unfolding xtext_roundtrip_exact by simp

text \<open>
  C32: it is not even injective: whenever the two-digit code of a special character begins with the
  digit \<open>h\<close> and ends with \<open>l\<close>, the control character with code \<open>h\<close>, which gets a single digit,
  followed by the digit \<open>l\<close> itself is written like that special character, wherever it stands in the
  value. RFC 3461 asks for two digits.
\<close>

theorem xtext_collision:
  assumes "1 \<le> h" and "h < 16" and "l < 16" and "xtext_special (char_of (16 * h + l))"
  shows "xtext_fmt (p @ [char_of h, digit_char l] @ s) = xtext_fmt (p @ [char_of (16 * h + l)] @ s)"
proof -
  have "byte_val (char_of h) = h" "byte_val (char_of (16 * h + l)) = 16 * h + l"
    using assms(2,3) by simp_all
  moreover have "xtext_special (char_of h)" using assms(2) by (simp add: xtext_special_def)
  moreover have "hex_upper (16 * h + l) = [digit_char h, digit_char l]"
    using hex_upper_two[of "16 * h + l"] assms(1-3) by simp
  ultimately show ?thesis
    using assms digit_char_not_special[OF assms(3)]
    by (simp add: xtext_fmt_eq xtext_char_def hex_upper_one)
qed

theorem xtext_collision_witness:
  "xtext_fmt (''a'' @ [CHR 0x02, CHR ''B''] @ ''c'') = xtext_fmt (''a'' @ ''+'' @ ''c'')"
  using xtext_collision[of 2 11 "''a''" "''c''"]
  by (simp add: xtext_special_def digit_char_def char_of_def bit_0 bit_iff_odd)

end
