(* ===== verification/Rust_Net.thy ===== *)
theory Rust_Net
  imports Smtp_Prelude
begin

text \<open>
  The addresses of \<open>std::net\<close> and their \<open>Display\<close>, which \<open>ClientId\<close> prints. An IPv6
  address is eight 16-bit segments; it is printed as the standard library does it: IPv4-mapped
  addresses in dotted form, otherwise the longest run of at least two zero segments (the first
  one of that length) replaced by a double colon.
\<close>

datatype ipv4_addr = Ipv4Addr u8 u8 u8 u8

datatype ipv6_addr = Ipv6Addr u16 u16 u16 u16 u16 u16 u16 u16

fun ipv4_fmt :: "ipv4_addr \<Rightarrow> string" where
  "ipv4_fmt (Ipv4Addr a b c d) =
     dec_string (unat a) @ ''.'' @ dec_string (unat b) @ ''.'' @ dec_string (unat c) @ ''.''
       @ dec_string (unat d)"

text \<open>\<open>{:x}\<close>\<close>

definition hex_lower :: "nat \<Rightarrow> string" where
  "hex_lower n = map (\<lambda>c. if 65 \<le> byte_val c then char_of (byte_val c + (32::nat)) else c) (hex_upper n)"

fun ipv6_segments :: "ipv6_addr \<Rightarrow> u16 list" where
  "ipv6_segments (Ipv6Addr a b c d e f g h) = [a, b, c, d, e, f, g, h]"

text \<open>
  The scan for the longest zero run: index, current run (start, length), longest run.
\<close>

fun longest_zeroes :: "nat \<Rightarrow> nat \<times> nat \<Rightarrow> nat \<times> nat \<Rightarrow> u16 list \<Rightarrow> nat \<times> nat" where
  "longest_zeroes i current longest [] = longest"
| "longest_zeroes i current longest (s # ss) =
     (if s = 0 then
        (let current = (if snd current = 0 then (i, snd current) else current);
             current = (fst current, snd current + 1);
             longest = (if snd longest < snd current then current else longest)
         in longest_zeroes (Suc i) current longest ss)
      else longest_zeroes (Suc i) (0, 0) longest ss)"

definition fmt_subslice :: "u16 list \<Rightarrow> string" where
  "fmt_subslice chunk = join '':'' (map (\<lambda>s. hex_lower (unat s)) chunk)"

fun ipv6_fmt :: "ipv6_addr \<Rightarrow> string" where
  "ipv6_fmt (Ipv6Addr a b c d e f g h) =
     (if a = 0 \<and> b = 0 \<and> c = 0 \<and> d = 0 \<and> e = 0 \<and> f = 0xFFFF
      then ''::ffff:'' @ ipv4_fmt (Ipv4Addr (ucast (drop_bit 8 g)) (ucast g)
             (ucast (drop_bit 8 h)) (ucast h))
      else
        (let segs = [a, b, c, d, e, f, g, h];
             z = longest_zeroes 0 (0, 0) (0, 0) segs
         in if 1 < snd z
            then fmt_subslice (take (fst z) segs) @ ''::'' @ fmt_subslice (drop (fst z + snd z) segs)
            else fmt_subslice segs))"

text \<open>The characters an address is printed with: digits, letters up to \<open>f\<close>, dot and colon.\<close>

definition addr_char :: "char \<Rightarrow> bool" where
  "addr_char c \<longleftrightarrow> (48 \<le> byte_val c \<and> byte_val c \<le> (58::nat)) \<or>
     (97 \<le> byte_val c \<and> byte_val c \<le> (102::nat)) \<or> c = DOT"

lemma addr_char_graphic: "addr_char c \<Longrightarrow> graphic c"
  by (auto simp: addr_char_def graphic_def)

lemma dec_string_addr: "\<forall>c \<in> set (dec_string n). addr_char c"
  using dec_string_digits[of n] by (auto simp: addr_char_def)

lemma hex_lower_addr: "\<forall>c \<in> set (hex_lower n). addr_char c"
proof
  fix c assume "c \<in> set (hex_lower n)"
  then obtain u where u: "u \<in> set (hex_upper n)"
    and c: "c = (if 65 \<le> byte_val u then char_of (byte_val u + (32::nat)) else u)"
    by (auto simp: hex_lower_def)
  obtain d where d: "d < 16" "u = digit_char d" using hex_upper_digits u by blast
  then have "byte_val u = (if d < 10 then 48 + d else 55 + d)" by (simp add: digit_char_def)
  then show "addr_char c"
    using d(1) c by (auto simp: addr_char_def split: if_splits)
qed

lemma join_chars: "\<forall>c \<in> set sep. P c \<Longrightarrow> \<forall>x \<in> set xs. \<forall>c \<in> set x. P c \<Longrightarrow> \<forall>c \<in> set (join sep xs). P c"
  by (induction sep xs rule: join.induct) auto

lemma fmt_subslice_addr: "\<forall>c \<in> set (fmt_subslice xs). addr_char c"
  unfolding fmt_subslice_def
  by (rule join_chars) (auto simp: addr_char_def hex_lower_addr[unfolded addr_char_def, rule_format])

lemma ipv4_fmt_addr: "\<forall>c \<in> set (ipv4_fmt a). addr_char c"
  using dec_string_addr by (cases a) (auto simp: addr_char_def)

lemma ipv6_fmt_addr: "\<forall>c \<in> set (ipv6_fmt a). addr_char c"
proof (cases a)
  case (Ipv6Addr a b c d e f g h)
  have run: "\<forall>x \<in> set (if 1 < snd z
      then fmt_subslice (take (fst z) segs) @ ''::'' @ fmt_subslice (drop (fst z + snd z) segs)
      else fmt_subslice segs). addr_char x" for z segs
    using fmt_subslice_addr by (auto simp: addr_char_def)
  have mapped: "\<forall>x \<in> set (''::ffff:'' @ ipv4_fmt v). addr_char x" for v
    using ipv4_fmt_addr[of v] by (simp add: addr_char_def)
  show ?thesis
  proof (cases "a = 0 \<and> b = 0 \<and> c = 0 \<and> d = 0 \<and> e = 0 \<and> f = 0xFFFF")
    case True
    show ?thesis unfolding Ipv6Addr ipv6_fmt.simps Let_def if_P[OF True] by (rule mapped)
  next
    case False
    show ?thesis unfolding Ipv6Addr ipv6_fmt.simps Let_def if_not_P[OF False] by (rule run)
  qed
qed

end
