(* ===== verification/Smtp_Extension.thy ===== *)
theory Smtp_Extension
  imports Smtp_Authentication Smtp_Util Rust_Net
begin

text \<open>
  \<open>src/extension.rs\<close>: client identifiers, the ESMTP extensions, the server information read
  from an EHLO reply, and the parameters of MAIL and RCPT. \<open>hostname::get\<close> is foreign and a
  parameter; a \<open>HashSet\<close> is a set, and where its iteration order shows (in \<open>Display\<close>) the
  order is a parameter.
\<close>

section \<open>Client identifiers\<close>

datatype client_id = Domain string | Ipv4 ipv4_addr | Ipv6 ipv6_addr

definition DEFAULT_DOMAIN_CLIENT_ID :: string where
  "DEFAULT_DOMAIN_CLIENT_ID = ''localhost.localdomain''"

definition client_id_default :: client_id where
  "client_id_default = Ipv4 (Ipv4Addr 127 0 0 1)"

fun client_id_fmt :: "client_id \<Rightarrow> string" where
  "client_id_fmt (Domain v) = v"
| "client_id_fmt (Ipv4 v) = ''['' @ ipv4_fmt v @ '']''"
| "client_id_fmt (Ipv6 v) = ''[IPv6:'' @ ipv6_fmt v @ '']''"

definition client_id_new :: "string \<Rightarrow> client_id" where
  "client_id_new domain = Domain domain"

text \<open>
  The argument is what \<open>hostname::get\<close> returned: an error or the bytes of the name, which is a
  \<open>String\<close> when they are valid UTF-8.
\<close>

definition client_id_hostname :: "io_error + byte list \<Rightarrow> client_id" where
  "client_id_hostname get =
     Domain (case get of
         Inl _ \<Rightarrow> DEFAULT_DOMAIN_CLIENT_ID
       | Inr s \<Rightarrow> (if utf8_valid s then s else DEFAULT_DOMAIN_CLIENT_ID))"

section \<open>Extensions and server information\<close>

datatype extension =
  Pipelining | EightBitMime | SmtpUtfEight | StartTls | Authentication mechanism

fun extension_fmt :: "extension \<Rightarrow> string" where
  "extension_fmt Pipelining = ''PIPELINING''"
| "extension_fmt EightBitMime = ''8BITMIME''"
| "extension_fmt SmtpUtfEight = ''SMTPUTF8''"
| "extension_fmt StartTls = ''STARTTLS''"
| "extension_fmt (Authentication m) = ''AUTH '' @ mechanism_fmt m"

record server_info =
  server_name :: string
  features :: "extension set"

text \<open>The derived \<open>Debug\<close> of the two enums and of the set, in the order it is iterated in.\<close>

fun mechanism_debug :: "mechanism \<Rightarrow> string" where
  "mechanism_debug Plain = ''Plain''"
| "mechanism_debug Login = ''Login''"
| "mechanism_debug Xoauth2 = ''Xoauth2''"

fun extension_debug :: "extension \<Rightarrow> string" where
  "extension_debug Pipelining = ''Pipelining''"
| "extension_debug EightBitMime = ''EightBitMime''"
| "extension_debug SmtpUtfEight = ''SmtpUtfEight''"
| "extension_debug StartTls = ''StartTls''"
| "extension_debug (Authentication m) = ''Authentication('' @ mechanism_debug m @ '')''"

definition server_info_fmt :: "(extension set \<Rightarrow> extension list) \<Rightarrow> server_info \<Rightarrow> string" where
  "server_info_fmt iter i =
     server_name i @ '' with '' @
       (if features i = {} then ''no supported features''
        else ''{'' @ join '', '' (map extension_debug (iter (features i))) @ ''}'')"

text \<open>\<open>ServerInfo::from_response\<close>: the loop over the mechanisms of an AUTH line first.\<close>

fun auth_features :: "string list \<Rightarrow> extension set \<Rightarrow> extension set" where
  "auth_features [] fs = fs"
| "auth_features (m # ms) fs =
     auth_features ms
       (if m = ''PLAIN'' then insert (Authentication Plain) fs
        else if m = ''LOGIN'' then insert (Authentication Login) fs
        else if m = ''XOAUTH2'' then insert (Authentication Xoauth2) fs
        else fs)"

definition line_features :: "string list \<Rightarrow> extension set \<Rightarrow> extension set" where
  "line_features words fs = (case words of
      [] \<Rightarrow> fs
    | w # ws \<Rightarrow>
        (if w = ''PIPELINING'' then insert Pipelining fs
         else if w = ''8BITMIME'' then insert EightBitMime fs
         else if w = ''SMTPUTF8'' then insert SmtpUtfEight fs
         else if w = ''STARTTLS'' then insert StartTls fs
         else if w = ''AUTH'' then auth_features ws fs
         else fs))"

fun response_features :: "string list \<Rightarrow> extension set \<Rightarrow> extension set" where
  "response_features [] fs = fs"
| "response_features (line # ls) fs =
     (if line = [] then response_features ls fs
      else response_features ls (line_features (split_whitespace line) fs))"

definition from_response :: "response \<Rightarrow> error + server_info" where
  "from_response r = (case first_word r of
      None \<Rightarrow> Inl (ResponseParsing ''Could not read server name'')
    | Some name \<Rightarrow> Inr \<lparr>server_name = name, features = response_features (message r) {}\<rparr>)"

definition supports_feature :: "server_info \<Rightarrow> extension \<Rightarrow> bool" where
  "supports_feature i keyword \<longleftrightarrow> keyword \<in> features i"

definition supports_auth_mechanism :: "server_info \<Rightarrow> mechanism \<Rightarrow> bool" where
  "supports_auth_mechanism i m \<longleftrightarrow> Authentication m \<in> features i"

section \<open>Parameters of MAIL and RCPT\<close>

datatype mail_body_parameter = SevenBit | BodyEightBitMime

fun mail_body_parameter_fmt :: "mail_body_parameter \<Rightarrow> string" where
  "mail_body_parameter_fmt SevenBit = ''7BIT''"
| "mail_body_parameter_fmt BodyEightBitMime = ''8BITMIME''"

text \<open>\<open>usize\<close> is 64 bits wide. The fields of \<open>Other\<close> are the keyword and the value.\<close>

datatype mail_parameter =
  Body mail_body_parameter
| SizeParam "64 word"
| SmtpUtfEightParam
| OtherParam string "string option"

datatype rcpt_parameter = RcptOther string "string option"

text \<open>
  The \<open>expect\<close> inside \<open>XText\<close> makes these functions partial; \<open>None\<close> is its panic.
\<close>

fun mail_parameter_fmt :: "mail_parameter \<Rightarrow> string option" where
  "mail_parameter_fmt (Body v) = Some (''BODY='' @ mail_body_parameter_fmt v)"
| "mail_parameter_fmt (SizeParam n) = Some (''SIZE='' @ dec_string (unat n))"
| "mail_parameter_fmt SmtpUtfEightParam = Some ''SMTPUTF8''"
| "mail_parameter_fmt (OtherParam keyword (Some v)) =
     map_option (\<lambda>x. keyword @ ''='' @ x) (xtext_fmt v)"
| "mail_parameter_fmt (OtherParam keyword None) = Some keyword"

fun rcpt_parameter_fmt :: "rcpt_parameter \<Rightarrow> string option" where
  "rcpt_parameter_fmt (RcptOther keyword (Some v)) =
     map_option (\<lambda>x. keyword @ ''='' @ x) (xtext_fmt v)"
| "rcpt_parameter_fmt (RcptOther keyword None) = Some keyword"

section \<open>What an EHLO reply announces\<close>

text \<open>\<open>announces line f\<close>: the line names the extension \<open>f\<close>, as the module documents it.\<close>

definition announces :: "string \<Rightarrow> extension \<Rightarrow> bool" where
  "announces line f = (case split_whitespace line of
      [] \<Rightarrow> False
    | w # ws \<Rightarrow> (case f of
        Authentication m \<Rightarrow> w = ''AUTH'' \<and> mechanism_fmt m \<in> set ws
      | _ \<Rightarrow> w = extension_fmt f))"

lemma auth_features_iff:
  "f \<in> auth_features ms fs \<longleftrightarrow>
     f \<in> fs \<or> (\<exists>m. f = Authentication m \<and> mechanism_fmt m \<in> set ms)"
proof (induction ms arbitrary: fs)
  case (Cons w ws)
  have "f \<in> (if w = ''PLAIN'' then insert (Authentication Plain) fs
        else if w = ''LOGIN'' then insert (Authentication Login) fs
        else if w = ''XOAUTH2'' then insert (Authentication Xoauth2) fs
        else fs) \<longleftrightarrow> f \<in> fs \<or> (\<exists>m. f = Authentication m \<and> mechanism_fmt m = w)"
    (is "f \<in> ?fs \<longleftrightarrow> _")
  proof (cases f)
    case (Authentication m)
    then show ?thesis by (cases m) auto
  qed auto
  moreover have "f \<in> auth_features (w # ws) fs \<longleftrightarrow> f \<in> auth_features ws ?fs" by simp
  ultimately show ?case using Cons[of ?fs] by auto
qed simp

lemma line_features_iff:
  "f \<in> line_features (split_whitespace line) fs \<longleftrightarrow> f \<in> fs \<or> announces line f"
  by (cases "split_whitespace line"; cases f)
    (auto simp: line_features_def announces_def auth_features_iff)

lemma response_features_iff:
  "f \<in> response_features ls fs \<longleftrightarrow> f \<in> fs \<or> (\<exists>line \<in> set ls. announces line f)"
proof (induction ls arbitrary: fs)
  case (Cons l ls)
  show ?case
  proof (cases "l = []")
    case True
    then show ?thesis using Cons by (simp add: announces_def)
  next
    case False
    then show ?thesis using Cons by (auto simp: line_features_iff)
  qed
qed simp

lemma from_response_Inr_iff:
  "from_response r = Inr i \<longleftrightarrow>
     first_word r = Some (server_name i) \<and>
     features i = {f. \<exists>line \<in> set (message r). announces line f}"
  by (cases i) (auto simp: from_response_def response_features_iff split: option.splits)

lemma from_response_Inl_iff:
  "(\<exists>e. from_response r = Inl e) \<longleftrightarrow>
     message r = [] \<or> split_whitespace (hd (message r)) = []"
  by (auto simp: from_response_def first_word_def split: option.splits list.splits)

lemma mail_parameter_fmt_total: "\<exists>s. mail_parameter_fmt p = Some s"
  by (induction p rule: mail_parameter_fmt.induct) (simp_all add: xtext_fmt_eq)

lemma rcpt_parameter_fmt_total: "\<exists>s. rcpt_parameter_fmt p = Some s"
  by (induction p rule: rcpt_parameter_fmt.induct) (simp_all add: xtext_fmt_eq)

section \<open>Properties\<close>

text \<open>
  C26: \<open>ServerInfo::from_response\<close> takes the first word of the reply as the name of the server
  and records exactly the extensions some line of the reply announces, an authentication mechanism
  for each known word after AUTH.
\<close>

theorem server_features_exact:
  "from_response r = Inr i \<longleftrightarrow>
     first_word r = Some (server_name i) \<and>
     features i = {f. \<exists>line \<in> set (message r). announces line f}"
  by (rule from_response_Inr_iff)

text \<open>
  It fails exactly when the reply has no word on its first line.
\<close>

theorem server_info_missing_name:
  "(\<exists>e. from_response r = Inl e) \<longleftrightarrow> message r = [] \<or> split_whitespace (hd (message r)) = []"
  by (rule from_response_Inl_iff)

end
