(* ===== verification/Smtp_Types.thy ===== *)
theory Smtp_Types
  imports Smtp_Error
begin

text \<open>
  \<open>src/types.rs\<close>: email addresses, envelopes, message bodies and sendable emails. The errors
  of this module are \<open>anyhow\<close> errors made by \<open>bail!\<close>, modelled by their text. Reading a
  body is asynchronous: \<open>Message\<close> implements the runtime's \<open>Read\<close> by delegating to what it
  holds, and the runtime's functions are parameters (\<open>read_lib\<close>).
\<close>

type_synonym anyhow_error = string

section \<open>Email addresses\<close>

datatype email_address = EmailAddress string

definition is_ascii_control :: "byte \<Rightarrow> bool" where
  "is_ascii_control c \<longleftrightarrow> byte_val c < (0x20 :: nat) \<or> byte_val c = (0x7F :: nat)"

definition is_ascii_whitespace :: "byte \<Rightarrow> bool" where
  "is_ascii_whitespace c \<longleftrightarrow> byte_val c \<in> {0x20, 0x09, 0x0A, 0x0C, 0x0D :: nat}"

definition email_address_new :: "string \<Rightarrow> anyhow_error + email_address" where
  "email_address_new address =
     (if list_ex (\<lambda>c. \<not> is_ascii c \<or> is_ascii_control c \<or> is_ascii_whitespace c
           \<or> c = CHR ''<'' \<or> c = CHR ''>'') address
      then Inl ''invalid email address''
      else Inr (EmailAddress address))"

definition email_address_from_str :: "string \<Rightarrow> anyhow_error + email_address" where
  "email_address_from_str s = email_address_new s"

fun email_address_fmt :: "email_address \<Rightarrow> string" where
  "email_address_fmt (EmailAddress s) = s"

definition email_address_as_ref :: "email_address \<Rightarrow> string" where
  "email_address_as_ref a = (case a of EmailAddress s \<Rightarrow> s)"

text \<open>An \<open>OsStr\<close> made from a \<open>str\<close> holds its bytes.\<close>

definition email_address_as_os_str :: "email_address \<Rightarrow> byte list" where
  "email_address_as_os_str a = (case a of EmailAddress s \<Rightarrow> s)"

text \<open>
  The field of \<open>EmailAddress\<close> is private, so every address of a program comes from \<open>new\<close>.
\<close>

definition email_ok :: "email_address \<Rightarrow> bool" where
  "email_ok a \<longleftrightarrow> email_address_new (email_address_fmt a) = Inr a"

lemma email_char_iff:
  "\<not> (\<not> is_ascii c \<or> is_ascii_control c \<or> is_ascii_whitespace c \<or> c = CHR ''<'' \<or> c = CHR ''>'')
   \<longleftrightarrow> graphic c \<and> c \<noteq> CHR ''<'' \<and> c \<noteq> CHR ''>''"
  by (auto simp: is_ascii_def is_ascii_control_def is_ascii_whitespace_def graphic_def)

lemma email_address_new_iff:
  "email_address_new s = Inr a \<longleftrightarrow>
     a = EmailAddress s \<and> (\<forall>c \<in> set s. graphic c \<and> c \<noteq> CHR ''<'' \<and> c \<noteq> CHR ''>'')"
  unfolding email_address_new_def list_ex_iff by (auto simp: email_char_iff[symmetric])

lemma email_ok_iff:
  "email_ok a \<longleftrightarrow>
     (\<forall>c \<in> set (email_address_fmt a). graphic c \<and> c \<noteq> CHR ''<'' \<and> c \<noteq> CHR ''>'')"
  by (cases a) (simp add: email_ok_def email_address_new_iff)

lemma email_new_ok: "email_address_new s = Inr a \<Longrightarrow> email_ok a \<and> email_address_fmt a = s"
  by (auto simp: email_address_new_iff email_ok_iff)

section \<open>Envelopes\<close>

record envelope =
  forward_path :: "email_address list"
  reverse_path :: "email_address option"

definition envelope_new :: "email_address option \<Rightarrow> email_address list \<Rightarrow> anyhow_error + envelope" where
  "envelope_new from_addr to_addrs =
     (if to_addrs = [] then Inl ''missing destination address''
      else Inr \<lparr>forward_path = to_addrs, reverse_path = from_addr\<rparr>)"

definition envelope_to :: "envelope \<Rightarrow> email_address list" where
  "envelope_to e = forward_path e"

definition envelope_from :: "envelope \<Rightarrow> email_address option" where
  "envelope_from e = reverse_path e"

definition envelope_ok :: "envelope \<Rightarrow> bool" where
  "envelope_ok e \<longleftrightarrow> forward_path e \<noteq> [] \<and> (\<forall>a \<in> set (forward_path e). email_ok a) \<and>
     (\<forall>a. reverse_path e = Some a \<longrightarrow> email_ok a)"

section \<open>Message bodies\<close>

text \<open>\<open>std::io::Cursor<Vec<u8>>\<close>\<close>

record cursor =
  cursor_data :: "byte list"
  cursor_pos :: nat

text \<open>A body is a boxed reader, of a state \<open>'r\<close> the model does not look into, or a cursor.\<close>

datatype 'r message = Reader 'r | Bytes cursor

datatype 'a poll = Pending | Ready 'a

type_synonym 'm poll_read = "'m \<Rightarrow> nat \<Rightarrow> (io_error + byte list) poll \<times> 'm"

text \<open>
  What the runtime and the boxed reader provide: \<open>poll_read\<close> of the reader and of a cursor
  (with the room left in the caller's buffer, giving the bytes put there), and
  \<open>BufReader::read_to_end\<close>, a function of the \<open>poll_read\<close> of what it wraps; its result is \<open>None\<close>
  if the reader stays pending for ever.
\<close>

record 'r read_lib =
  reader_poll_read :: "'r poll_read"
  cursor_poll_read :: "cursor poll_read"
  read_to_end :: "'r message poll_read \<Rightarrow> 'r message \<Rightarrow> (io_error + byte list) option"

definition message_poll_read :: "'r read_lib \<Rightarrow> 'r message poll_read" where
  "message_poll_read R m n = (case m of
      Reader rdr \<Rightarrow> (case reader_poll_read R rdr n of (p, rdr) \<Rightarrow> (p, Reader rdr))
    | Bytes rdr \<Rightarrow> (case cursor_poll_read R rdr n of (p, rdr) \<Rightarrow> (p, Bytes rdr)))"

record 'r sendable_email =
  sendable_envelope :: envelope
  sendable_message :: "'r message"

text \<open>The two accessors; \<open>message\<close> consumes the email.\<close>

definition email_envelope :: "'r sendable_email \<Rightarrow> envelope" where
  "email_envelope email = sendable_envelope email"

definition email_message :: "'r sendable_email \<Rightarrow> 'r message" where
  "email_message email = sendable_message email"

lemma sendable_email_simps [simp]:
  "email_envelope \<lparr>sendable_envelope = e, sendable_message = msg\<rparr> = e"
  "email_message \<lparr>sendable_envelope = e, sendable_message = msg\<rparr> = msg"
  by (simp_all add: email_envelope_def email_message_def)

definition sendable_email_new :: "envelope \<Rightarrow> byte list \<Rightarrow> 'r sendable_email" where
  "sendable_email_new e body =
     \<lparr>sendable_envelope = e, sendable_message = Bytes \<lparr>cursor_data = body, cursor_pos = 0\<rparr>\<rparr>"

definition sendable_email_new_with_reader :: "envelope \<Rightarrow> 'r \<Rightarrow> 'r sendable_email" where
  "sendable_email_new_with_reader e rdr = \<lparr>sendable_envelope = e, sendable_message = Reader rdr\<rparr>"

section \<open>What a reader delivers\<close>

text \<open>
  \<open>delivers P m bs\<close>: however large the caller's buffer is, polling \<open>m\<close> with \<open>P\<close> gives the
  bytes \<open>bs\<close> in pieces and then the end of the data, which is an empty piece.
\<close>

inductive delivers :: "'m poll_read \<Rightarrow> 'm \<Rightarrow> byte list \<Rightarrow> bool" for P where
  at_end: "\<forall>n > 0. \<exists>m'. P m n = (Ready (Inr []), m') \<Longrightarrow> delivers P m []"
| piece: "bs \<noteq> [] \<Longrightarrow>
     \<forall>n > 0. \<exists>m' k. 0 < k \<and> P m n = (Ready (Inr (take k bs)), m') \<and> delivers P m' (drop k bs) \<Longrightarrow>
     delivers P m bs"
| pending: "\<forall>n > 0. \<exists>m'. P m n = (Pending, m') \<and> delivers P m' bs \<Longrightarrow> delivers P m bs"

text \<open>
  The documented behaviour the crate relies on: a cursor yields what is left of its data, and
  \<open>read_to_end\<close> returns what its reader delivers.
\<close>

locale read_api =
  fixes R :: "'r read_lib"
  assumes cursor_read: "cursor_poll_read R c n =
      (let chunk = take n (drop (cursor_pos c) (cursor_data c))
       in (Ready (Inr chunk), c\<lparr>cursor_pos := cursor_pos c + length chunk\<rparr>))"
    and read_to_end: "delivers P m bs \<Longrightarrow> read_to_end R P m = Some (Inr bs)"
begin

lemma cursor_delivers:
  "delivers (message_poll_read R) (Bytes c) (drop (cursor_pos c) (cursor_data c))"
proof (induction "length (drop (cursor_pos c) (cursor_data c))" arbitrary: c rule: less_induct)
  case less
  let ?left = "drop (cursor_pos c) (cursor_data c)"
  have step: "message_poll_read R (Bytes c) n =
      (Ready (Inr (take n ?left)), Bytes (c\<lparr>cursor_pos := cursor_pos c + length (take n ?left)\<rparr>))" for n
    by (simp add: message_poll_read_def cursor_read Let_def)
  show ?case
  proof (cases "?left = []")
    case True
    have "delivers (message_poll_read R) (Bytes c) []"
      by (rule delivers.at_end) (simp add: step True)
    then show ?thesis by (simp only: True)
  next
    case False
    show ?thesis
    proof (rule delivers.piece[OF False], intro allI impI)
      fix n :: nat assume n: "0 < n"
      let ?c = "c\<lparr>cursor_pos := cursor_pos c + length (take n ?left)\<rparr>"
      have eq: "drop (cursor_pos ?c) (cursor_data ?c) = drop (length (take n ?left)) ?left"
        by (simp add: add.commute)
      have "drop (cursor_pos ?c) (cursor_data ?c) = drop n ?left"
        unfolding eq by (cases "n \<le> length ?left") simp_all
      moreover have "length (drop n ?left) < length ?left" using n False by simp
      ultimately have "delivers (message_poll_read R) (Bytes ?c) (drop n ?left)"
        using less[of ?c] by simp
      then show "\<exists>m' k. 0 < k \<and> message_poll_read R (Bytes c) n = (Ready (Inr (take k ?left)), m')
          \<and> delivers (message_poll_read R) m' (drop k ?left)"
        using n step by blast
    qed
  qed
qed

lemma read_to_end_bytes:
  "read_to_end R (message_poll_read R) (email_message (sendable_email_new e body)) = Some (Inr body)"
  using read_to_end[OF cursor_delivers, of "\<lparr>cursor_data = body, cursor_pos = 0\<rparr>"]
  by (simp add: sendable_email_new_def)

end

section \<open>A runtime that satisfies the laws\<close>

text \<open>
  The boxed reader is a byte slice (\<open>&[u8]\<close> implements \<open>Read\<close>), and \<open>read_to_end\<close> polls
  with a buffer of 32 bytes until the end of the data; polling for ever is \<open>None\<close>.
\<close>

partial_function (option) read_loop :: "'m poll_read \<Rightarrow> byte list \<Rightarrow> 'm \<Rightarrow> (io_error + byte list) option"
where
  "read_loop P out m = (case P m 32 of (p, m') \<Rightarrow> (case p of
       Pending \<Rightarrow> read_loop P out m'
     | Ready (Inl e) \<Rightarrow> Some (Inl e)
     | Ready (Inr chunk) \<Rightarrow> (if chunk = [] then Some (Inr out) else read_loop P (out @ chunk) m')))"

definition slice_poll_read :: "byte list poll_read" where
  "slice_poll_read s n = (Ready (Inr (take n s)), drop n s)"

definition ref_cursor_read :: "cursor poll_read" where
  "ref_cursor_read c n = (let chunk = take n (drop (cursor_pos c) (cursor_data c))
     in (Ready (Inr chunk), c\<lparr>cursor_pos := cursor_pos c + length chunk\<rparr>))"

definition read_ref :: "byte list read_lib" where
  "read_ref = \<lparr>reader_poll_read = slice_poll_read, cursor_poll_read = ref_cursor_read,
     read_to_end = (\<lambda>P m. read_loop P [] m)\<rparr>"

lemma read_loop_delivers:
  "delivers P m bs \<Longrightarrow> read_loop P out m = Some (Inr (out @ bs))"
proof (induction arbitrary: out rule: delivers.induct)
  case (at_end m)
  then obtain m' where "P m 32 = (Ready (Inr []), m')" by fastforce
  then show ?case by (simp add: read_loop.simps)
next
  case (piece bs m)
  then obtain m' k where "0 < k" "P m 32 = (Ready (Inr (take k bs)), m')"
    "\<And>out. read_loop P out m' = Some (Inr (out @ drop k bs))"
    by (metis zero_less_numeral)
  with piece(1) show ?case by (simp add: read_loop.simps[of P out m])
next
  case (pending m bs)
  then obtain m' where "P m 32 = (Pending, m')" "\<And>out. read_loop P out m' = Some (Inr (out @ bs))"
    by (metis zero_less_numeral)
  then show ?case by (simp add: read_loop.simps[of P out m])
qed

interpretation ref_read: read_api read_ref
  by unfold_locales (auto simp: read_ref_def ref_cursor_read_def read_loop_delivers)

section \<open>Properties\<close>

text \<open>
  C36: \<open>EmailAddress::new\<close> accepts exactly the texts of printable ASCII without spaces and
  angle brackets, and keeps the text: an address cannot close the path it is put in, nor the line.
\<close>

theorem email_address_new_exact:
  "email_address_new s = Inr a \<longleftrightarrow>
     a = EmailAddress s \<and> (\<forall>c \<in> set s. graphic c \<and> c \<noteq> CHR ''<'' \<and> c \<noteq> CHR ''>'')"
  by (rule email_address_new_iff)

theorem email_address_new_exact_witness:
  "email_address_new ''a@b.org'' = Inr (EmailAddress ''a@b.org'')"
  by (rule email_address_new_exact[THEN iffD2]) (simp add: graphic_def)

text \<open>
  C37: reading a body made from bytes through \<open>Message\<close>'s \<open>poll_read\<close> gives these bytes,
  whatever buffer sizes the runtime polls with.
\<close>

theorem body_read_back:
  assumes "read_api R"
  shows "read_to_end R (message_poll_read R) (email_message (sendable_email_new e body)) = Some (Inr body)"
  using assms by (rule read_api.read_to_end_bytes)

theorem body_read_back_witness:
  "read_to_end read_ref (message_poll_read read_ref)
     (email_message (sendable_email_new \<lparr>forward_path = [], reverse_path = None\<rparr> ''hello'')) = Some (Inr ''hello'')"
  by (rule body_read_back[OF ref_read.read_api_axioms])

end
