(* ===== verification/Smtp_Commands.thy ===== *)
theory Smtp_Commands
  imports Smtp_Extension Smtp_Types
begin

text \<open>
  \<open>src/commands.rs\<close>: the commands, what each of them is written as, and the construction of
  AUTH commands. Every command is an \<open>impl Display\<close> the stream sends as one line: the locale
  \<open>smtp_command\<close> is that contract, interpreted for every command below. The \<open>Display\<close> of
  MAIL and RCPT goes through \<open>XText\<close> and is partial (\<open>None\<close> is its panic).
\<close>

section \<open>The commands\<close>

record ehlo_command = ehlo_client_id :: client_id

definition ehlo_fmt :: "ehlo_command \<Rightarrow> string" where
  "ehlo_fmt c = ''EHLO '' @ client_id_fmt (ehlo_client_id c) @ crlf"

definition ehlo_new :: "client_id \<Rightarrow> ehlo_command" where
  "ehlo_new i = \<lparr>ehlo_client_id = i\<rparr>"

datatype starttls_command = StarttlsCommand

definition starttls_fmt :: "starttls_command \<Rightarrow> string" where
  "starttls_fmt c = ''STARTTLS'' @ crlf"

record mail_command =
  mail_sender :: "email_address option"
  mail_parameters :: "mail_parameter list"

text \<open>The loop that writes a space and a parameter for each parameter.\<close>

fun parameters_fmt :: "('p \<Rightarrow> string option) \<Rightarrow> 'p list \<Rightarrow> string option" where
  "parameters_fmt show_param [] = Some []"
| "parameters_fmt show_param (p # ps) =
     (case show_param p of None \<Rightarrow> None | Some s \<Rightarrow>
       map_option (\<lambda>rest. '' '' @ s @ rest) (parameters_fmt show_param ps))"

definition mail_fmt :: "mail_command \<Rightarrow> string option" where
  "mail_fmt c =
     (let sender = (case mail_sender c of None \<Rightarrow> '''' | Some a \<Rightarrow> email_address_as_ref a) in
      map_option (\<lambda>ps. ''MAIL FROM:<'' @ sender @ ''>'' @ ps @ crlf)
        (parameters_fmt mail_parameter_fmt (mail_parameters c)))"

definition mail_new :: "email_address option \<Rightarrow> mail_parameter list \<Rightarrow> mail_command" where
  "mail_new sender parameters = \<lparr>mail_sender = sender, mail_parameters = parameters\<rparr>"

record rcpt_command =
  rcpt_recipient :: email_address
  rcpt_parameters :: "rcpt_parameter list"

definition rcpt_fmt :: "rcpt_command \<Rightarrow> string option" where
  "rcpt_fmt c =
     map_option (\<lambda>ps. ''RCPT TO:<'' @ email_address_fmt (rcpt_recipient c) @ ''>'' @ ps @ crlf)
       (parameters_fmt rcpt_parameter_fmt (rcpt_parameters c))"

definition rcpt_new :: "email_address \<Rightarrow> rcpt_parameter list \<Rightarrow> rcpt_command" where
  "rcpt_new recipient parameters = \<lparr>rcpt_recipient = recipient, rcpt_parameters = parameters\<rparr>"

datatype data_command = DataCommand

definition data_fmt :: "data_command \<Rightarrow> string" where
  "data_fmt c = ''DATA'' @ crlf"

datatype quit_command = QuitCommand

definition quit_fmt :: "quit_command \<Rightarrow> string" where
  "quit_fmt c = ''QUIT'' @ crlf"

datatype noop_command = NoopCommand

definition noop_fmt :: "noop_command \<Rightarrow> string" where
  "noop_fmt c = ''NOOP'' @ crlf"

record help_command = help_argument :: "string option"

definition help_fmt :: "help_command \<Rightarrow> string" where
  "help_fmt c =
     ''HELP'' @ (case help_argument c of None \<Rightarrow> [] | Some arg \<Rightarrow> '' '' @ arg) @ crlf"

definition help_new :: "string option \<Rightarrow> help_command" where
  "help_new arg = \<lparr>help_argument = arg\<rparr>"

record vrfy_command = vrfy_argument :: string

definition vrfy_fmt :: "vrfy_command \<Rightarrow> string" where
  "vrfy_fmt c = ''VRFY '' @ vrfy_argument c @ crlf"

definition vrfy_new :: "string \<Rightarrow> vrfy_command" where
  "vrfy_new arg = \<lparr>vrfy_argument = arg\<rparr>"

record expn_command = expn_argument :: string

definition expn_fmt :: "expn_command \<Rightarrow> string" where
  "expn_fmt c = ''EXPN '' @ expn_argument c @ crlf"

definition expn_new :: "string \<Rightarrow> expn_command" where
  "expn_new arg = \<lparr>expn_argument = arg\<rparr>"

datatype rset_command = RsetCommand

definition rset_fmt :: "rset_command \<Rightarrow> string" where
  "rset_fmt c = ''RSET'' @ crlf"

section \<open>AUTH\<close>

record auth_command =
  auth_mechanism :: mechanism
  auth_credentials :: credentials
  auth_challenge :: "string option"
  auth_response :: "string option"

definition auth_fmt :: "base64_lib \<Rightarrow> auth_command \<Rightarrow> string" where
  "auth_fmt B c =
     (let encoded_response = map_option (b64_encode B) (auth_response c) in
      (if supports_initial_response (auth_mechanism c)
       then ''AUTH '' @ mechanism_fmt (auth_mechanism c) @ '' '' @
              (case encoded_response of None \<Rightarrow> '''' | Some r \<Rightarrow> r)
       else (case encoded_response of
           Some r \<Rightarrow> r
         | None \<Rightarrow> ''AUTH '' @ mechanism_fmt (auth_mechanism c)))
      @ crlf)"

definition auth_new :: "mechanism \<Rightarrow> credentials \<Rightarrow> string option \<Rightarrow> error + auth_command" where
  "auth_new m creds challenge =
     (case (if supports_initial_response m \<or> challenge \<noteq> None
            then (case mechanism_response m creds challenge of
                Inl e \<Rightarrow> Inl e | Inr r \<Rightarrow> Inr (Some r))
            else Inr None) of
        Inl e \<Rightarrow> Inl e
      | Inr response \<Rightarrow>
          Inr \<lparr>auth_mechanism = m, auth_credentials = creds, auth_challenge = challenge,
               auth_response = response\<rparr>)"

definition auth_new_from_response ::
  "base64_lib \<Rightarrow> mechanism \<Rightarrow> credentials \<Rightarrow> response \<Rightarrow> error + auth_command" where
  "auth_new_from_response B m creds r =
     (if \<not> has_code r 334 then Inl (ResponseParsing ''Expecting a challenge'')
      else case first_word r of
        None \<Rightarrow> Inl (ResponseParsing ''Could not read auth challenge'')
      | Some encoded_challenge \<Rightarrow>
     (case b64_decode B encoded_challenge of
        Inl e \<Rightarrow> Inl (ChallengeParsing e)
      | Inr bytes \<Rightarrow>
          if \<not> utf8_valid bytes then Inl (Utf8Parsing bytes)
          else (case mechanism_response m creds (Some bytes) of
              Inl e \<Rightarrow> Inl e
            | Inr response \<Rightarrow>
                Inr \<lparr>auth_mechanism = m, auth_credentials = creds, auth_challenge = Some bytes,
                     auth_response = Some response\<rparr>)))"

section \<open>One command, one line\<close>

definition one_line :: "string \<Rightarrow> bool" where
  "one_line l \<longleftrightarrow> CR \<notin> set l \<and> LF \<notin> set l"

lemma one_line_append [simp]: "one_line (s @ t) \<longleftrightarrow> one_line s \<and> one_line t"
  by (auto simp: one_line_def)

lemma one_line_simps [simp]:
  "one_line []" "one_line (c # s) \<longleftrightarrow> c \<noteq> CR \<and> c \<noteq> LF \<and> one_line s"
  by (auto simp: one_line_def)

lemma one_line_no_crlf: "one_line l \<Longrightarrow> \<not> has_crlf l"
  by (simp add: one_line_def no_LF_no_crlf)

lemma one_line_graphic: "\<forall>c \<in> set s. graphic c \<Longrightarrow> one_line s"
  by (auto simp: one_line_def graphic_def)

text \<open>
  What the stream relies on: a command whose arguments are \<open>safe\<close> is written as one line. Then
  the peer, who splits what it receives at the CRLFs, sees exactly the commands that were sent.
\<close>

locale smtp_command =
  fixes render :: "'c \<Rightarrow> string option"
    and safe :: "'c \<Rightarrow> bool"
  assumes render_line: "safe c \<Longrightarrow> \<exists>l. render c = Some (l @ crlf) \<and> one_line l"
begin

lemma render_not_None: "safe c \<Longrightarrow> render c \<noteq> None"
  using render_line by fastforce

lemma peer_sees_commands:
  assumes "\<forall>c \<in> set cs. safe c"
  shows "\<exists>ls. map render cs = map (\<lambda>l. Some (l @ crlf)) ls \<and>
    (\<forall>r ms q. crlf_lines r = (ms, q) \<longrightarrow>
       crlf_lines (concat (map (\<lambda>c. the (render c)) cs) @ r) = (ls @ ms, q))"
  using assms
proof (induction cs)
  case Nil
  then show ?case by simp
next
  case (Cons c cs)
  then obtain ls where ls: "map render cs = map (\<lambda>l. Some (l @ crlf)) ls"
    "\<forall>r ms q. crlf_lines r = (ms, q) \<longrightarrow>
       crlf_lines (concat (map (\<lambda>c. the (render c)) cs) @ r) = (ls @ ms, q)" by auto
  obtain l where l: "render c = Some (l @ crlf)" "one_line l"
    using render_line Cons.prems by force
  have "crlf_lines (concat (map (\<lambda>c. the (render c)) (c # cs)) @ r) = ((l # ls) @ ms, q)"
    if "crlf_lines r = (ms, q)" for r ms q
    using that ls(2) l by (simp add: crlf_lines_line one_line_no_crlf)
  with ls(1) l(1) show ?case by (intro exI[of _ "l # ls"]) simp
qed

end

definition client_id_safe :: "client_id \<Rightarrow> bool" where
  "client_id_safe i = (case i of Domain v \<Rightarrow> one_line v | _ \<Rightarrow> True)"

fun mail_parameter_safe :: "mail_parameter \<Rightarrow> bool" where
  "mail_parameter_safe (OtherParam keyword _) = one_line keyword"
| "mail_parameter_safe _ = True"

fun rcpt_parameter_safe :: "rcpt_parameter \<Rightarrow> bool" where
  "rcpt_parameter_safe (RcptOther keyword _) = one_line keyword"

definition mail_safe :: "mail_command \<Rightarrow> bool" where
  "mail_safe c \<longleftrightarrow> (\<forall>a. mail_sender c = Some a \<longrightarrow> email_ok a) \<and>
     (\<forall>p \<in> set (mail_parameters c). mail_parameter_safe p)"

definition rcpt_safe :: "rcpt_command \<Rightarrow> bool" where
  "rcpt_safe c \<longleftrightarrow> email_ok (rcpt_recipient c) \<and>
     (\<forall>p \<in> set (rcpt_parameters c). rcpt_parameter_safe p)"

lemma xtext_one_line: "one_line (xtext s)"
  using xtext_clean[of CR s] xtext_clean[of LF s] by (auto simp: one_line_def xtext_special_def)

lemma addr_one_line: "one_line (ipv4_fmt a)" "one_line (ipv6_fmt b)"
  using ipv4_fmt_addr[of a] ipv6_fmt_addr[of b] addr_char_graphic by (simp_all add: one_line_graphic)

lemma client_id_one_line: "client_id_safe i \<Longrightarrow> one_line (client_id_fmt i)"
  by (cases i) (simp_all add: client_id_safe_def addr_one_line)

lemma email_one_line: "email_ok a \<Longrightarrow> one_line (email_address_fmt a)"
  by (auto simp: email_ok_iff intro: one_line_graphic)

lemma email_as_ref: "email_address_as_ref a = email_address_fmt a"
  by (cases a) (simp add: email_address_as_ref_def)

lemma dec_one_line: "one_line (dec_string n)"
  using dec_string_addr[of n] by (auto intro: one_line_graphic addr_char_graphic)

lemma mail_parameter_line:
  "mail_parameter_safe p \<Longrightarrow> mail_parameter_fmt p = Some s \<Longrightarrow> one_line s"
proof (induction p rule: mail_parameter_fmt.induct)
  case (1 v)
  then show ?case by (cases v) auto
qed (auto simp: dec_one_line xtext_fmt_eq xtext_one_line)

lemma rcpt_parameter_line:
  "rcpt_parameter_safe p \<Longrightarrow> rcpt_parameter_fmt p = Some s \<Longrightarrow> one_line s"
  by (induction p rule: rcpt_parameter_fmt.induct) (auto simp: xtext_fmt_eq xtext_one_line)

text \<open>
  The text of a MAIL and of a RCPT command for any parameters, and when a line break is in it.
\<close>

lemma parameters_fmt_concat:
  assumes "\<And>p. \<exists>s. show_param p = Some s"
  shows "parameters_fmt show_param ps = Some (concat (map (\<lambda>p. '' '' @ the (show_param p)) ps))"
proof (induction ps)
  case (Cons p ps)
  obtain s where "show_param p = Some s" using assms by blast
  with Cons show ?case by simp
qed simp

lemma has_crlf_spaced: "has_crlf (concat (map (\<lambda>p. '' '' @ f p) ps)) \<longleftrightarrow> (\<exists>p \<in> set ps. has_crlf (f p))"
proof (induction ps)
  case (Cons p ps)
  have "concat (map (\<lambda>p. '' '' @ f p) ps) = [] \<or> hd (concat (map (\<lambda>p. '' '' @ f p) ps)) \<noteq> LF"
    by (cases ps) auto
  with Cons has_crlf_no_CR[of "'' ''" "f p @ concat (map (\<lambda>p. '' '' @ f p) ps)"] show ?case
    by (auto simp: has_crlf_append)
qed simp

lemma one_line_spaced: "one_line (concat (map (\<lambda>p. '' '' @ f p) ps)) \<longleftrightarrow> (\<forall>p \<in> set ps. one_line (f p))"
  by (induction ps) auto

lemma keyword_value_crlf:
  "has_crlf (k @ CHR ''='' # xtext v) \<longleftrightarrow> has_crlf k"
proof -
  have "\<not> has_crlf (CHR ''='' # xtext v)"
    using one_line_no_crlf[of "CHR ''='' # xtext v"] xtext_one_line[of v] by simp
  then show ?thesis by (auto simp: has_crlf_append)
qed

lemma mail_parameter_crlf:
  "has_crlf (the (mail_parameter_fmt p)) \<longleftrightarrow> (\<exists>k v. p = OtherParam k v \<and> has_crlf k)"
  "one_line (the (mail_parameter_fmt p)) \<longleftrightarrow> (\<forall>k v. p = OtherParam k v \<longrightarrow> one_line k)"
proof -
  obtain s where s: "mail_parameter_fmt p = Some s" using mail_parameter_fmt_total by blast
  have "one_line s" if "\<forall>k v. p \<noteq> OtherParam k v"
    using mail_parameter_line[OF _ s] that by (cases p) auto
  then show "has_crlf (the (mail_parameter_fmt p)) \<longleftrightarrow> (\<exists>k v. p = OtherParam k v \<and> has_crlf k)"
    "one_line (the (mail_parameter_fmt p)) \<longleftrightarrow> (\<forall>k v. p = OtherParam k v \<longrightarrow> one_line k)"
    using s keyword_value_crlf
    by (cases p rule: mail_parameter_fmt.cases;
        fastforce simp: xtext_fmt_eq xtext_one_line dest: one_line_no_crlf)+
qed

lemma rcpt_parameter_crlf:
  "has_crlf (the (rcpt_parameter_fmt p)) \<longleftrightarrow> (\<exists>k v. p = RcptOther k v \<and> has_crlf k)"
  "one_line (the (rcpt_parameter_fmt p)) \<longleftrightarrow> (\<forall>k v. p = RcptOther k v \<longrightarrow> one_line k)"
  using keyword_value_crlf
  by (cases p rule: rcpt_parameter_fmt.cases; simp add: xtext_fmt_eq xtext_one_line)+

definition mail_line :: "mail_parameter list \<Rightarrow> email_address option \<Rightarrow> string" where
  "mail_line opts from_addr =
     ''MAIL FROM:<'' @ (case from_addr of None \<Rightarrow> '''' | Some a \<Rightarrow> email_address_fmt a) @ ''>'' @
     concat (map (\<lambda>p. '' '' @ the (mail_parameter_fmt p)) opts)"

definition rcpt_full_line :: "rcpt_command \<Rightarrow> string" where
  "rcpt_full_line c = ''RCPT TO:<'' @ email_address_fmt (rcpt_recipient c) @ ''>'' @
     concat (map (\<lambda>p. '' '' @ the (rcpt_parameter_fmt p)) (rcpt_parameters c))"

lemma mail_fmt_line: "mail_fmt c = Some (mail_line (mail_parameters c) (mail_sender c) @ crlf)"
  using parameters_fmt_concat[of mail_parameter_fmt "mail_parameters c", OF mail_parameter_fmt_total]
  by (simp add: mail_fmt_def mail_line_def email_as_ref split: option.split)

lemma rcpt_fmt_full: "rcpt_fmt c = Some (rcpt_full_line c @ crlf)"
  using parameters_fmt_concat[of rcpt_parameter_fmt "rcpt_parameters c", OF rcpt_parameter_fmt_total]
  by (simp add: rcpt_fmt_def rcpt_full_line_def)

lemma in_front_of_spaced:
  assumes "one_line v"
  shows "has_crlf (v @ ''>'' @ concat (map (\<lambda>p. '' '' @ f p) ps)) \<longleftrightarrow> (\<exists>p \<in> set ps. has_crlf (f p))"
    and "one_line (v @ ''>'' @ concat (map (\<lambda>p. '' '' @ f p) ps)) \<longleftrightarrow> (\<forall>p \<in> set ps. one_line (f p))"
proof -
  have "CR \<notin> set (v @ ''>'')" using assms by (simp add: one_line_def)
  from has_crlf_no_CR[OF this] show "has_crlf (v @ ''>'' @ concat (map (\<lambda>p. '' '' @ f p) ps)) \<longleftrightarrow>
      (\<exists>p \<in> set ps. has_crlf (f p))" using has_crlf_spaced[of f ps] by simp
  show "one_line (v @ ''>'' @ concat (map (\<lambda>p. '' '' @ f p) ps)) \<longleftrightarrow> (\<forall>p \<in> set ps. one_line (f p))"
    using assms one_line_spaced[of f ps] by simp
qed

lemma mail_line_crlf:
  assumes "\<forall>a. from_addr = Some a \<longrightarrow> email_ok a"
  shows "has_crlf (mail_line opts from_addr) \<longleftrightarrow> (\<exists>k v. OtherParam k v \<in> set opts \<and> has_crlf k)"
    and "one_line (mail_line opts from_addr) \<longleftrightarrow> (\<forall>k v. OtherParam k v \<in> set opts \<longrightarrow> one_line k)"
proof -
  let ?v = "''MAIL FROM:<'' @ (case from_addr of None \<Rightarrow> '''' | Some a \<Rightarrow> email_address_fmt a)"
  have "one_line ?v" using assms email_one_line by (simp split: option.split)
  note * = in_front_of_spaced[OF this, of "\<lambda>p. the (mail_parameter_fmt p)" opts]
  show "has_crlf (mail_line opts from_addr) \<longleftrightarrow> (\<exists>k v. OtherParam k v \<in> set opts \<and> has_crlf k)"
    using *(1) unfolding mail_line_def append_assoc mail_parameter_crlf by blast
  show "one_line (mail_line opts from_addr) \<longleftrightarrow> (\<forall>k v. OtherParam k v \<in> set opts \<longrightarrow> one_line k)"
    using *(2) unfolding mail_line_def append_assoc mail_parameter_crlf by blast
qed

lemma rcpt_full_line_crlf:
  assumes "email_ok (rcpt_recipient c)"
  shows "has_crlf (rcpt_full_line c) \<longleftrightarrow> (\<exists>k v. RcptOther k v \<in> set (rcpt_parameters c) \<and> has_crlf k)"
    and "one_line (rcpt_full_line c) \<longleftrightarrow> (\<forall>k v. RcptOther k v \<in> set (rcpt_parameters c) \<longrightarrow> one_line k)"
proof -
  have "one_line (''RCPT TO:<'' @ email_address_fmt (rcpt_recipient c))"
    using assms email_one_line by simp
  note * = in_front_of_spaced[OF this, of "\<lambda>p. the (rcpt_parameter_fmt p)" "rcpt_parameters c"]
  show "has_crlf (rcpt_full_line c) \<longleftrightarrow> (\<exists>k v. RcptOther k v \<in> set (rcpt_parameters c) \<and> has_crlf k)"
    using *(1) unfolding rcpt_full_line_def append_assoc rcpt_parameter_crlf by blast
  show "one_line (rcpt_full_line c) \<longleftrightarrow> (\<forall>k v. RcptOther k v \<in> set (rcpt_parameters c) \<longrightarrow> one_line k)"
    using *(2) unfolding rcpt_full_line_def append_assoc rcpt_parameter_crlf by blast
qed

lemma mail_render:
  assumes "mail_safe c"
  shows "\<exists>l. mail_fmt c = Some (l @ crlf) \<and> one_line l"
proof -
  have "one_line (mail_line (mail_parameters c) (mail_sender c))"
    using assms mail_line_crlf(2)[of "mail_sender c" "mail_parameters c"]
    by (fastforce simp: mail_safe_def)
  then show ?thesis by (simp add: mail_fmt_line)
qed

lemma rcpt_render:
  assumes "rcpt_safe c"
  shows "\<exists>l. rcpt_fmt c = Some (l @ crlf) \<and> one_line l"
proof -
  have "one_line (rcpt_full_line c)"
    using assms rcpt_full_line_crlf(2)[of c] by (fastforce simp: rcpt_safe_def)
  then show ?thesis by (simp add: rcpt_fmt_full)
qed

text \<open>A peer sees one line per command exactly when no command has a CRLF before its end.\<close>

lemma peer_sees_iff:
  assumes "\<And>c. render c = Some (show_line c @ crlf)"
  shows "(\<exists>ls. map render cs = map (\<lambda>l. Some (l @ crlf)) ls \<and>
      crlf_lines (concat (map (\<lambda>c. the (render c)) cs)) = (ls, [])) \<longleftrightarrow>
    (\<forall>c \<in> set cs. \<not> has_crlf (show_line c))"
proof -
  have render: "render = (\<lambda>c. Some (show_line c @ crlf))" by (rule ext) (rule assms)
  have lines: "map render cs = map (\<lambda>l. Some (l @ crlf)) ls \<longleftrightarrow> ls = map show_line cs" for ls
    unfolding render by (induction cs arbitrary: ls) auto
  have "crlf_lines (concat (map (\<lambda>c. the (render c)) cs)) = (map show_line cs, []) \<longleftrightarrow>
      (\<forall>c \<in> set cs. \<not> has_crlf (show_line c))"
  proof
    assume "crlf_lines (concat (map (\<lambda>c. the (render c)) cs)) = (map show_line cs, [])"
    then show "\<forall>c \<in> set cs. \<not> has_crlf (show_line c)" 
      using crlf_lines_no_inner[of _ "concat (map (\<lambda>c. the (render c)) cs)"] by simp
  next
    assume "\<forall>c \<in> set cs. \<not> has_crlf (show_line c)"
    then have "crlf_lines (concat (map (\<lambda>l. l @ crlf) (map show_line cs)) @ []) = (map show_line cs, [])"
      by (subst crlf_lines_concat) simp_all
    then show "crlf_lines (concat (map (\<lambda>c. the (render c)) cs)) = (map show_line cs, [])"
      unfolding render by (simp add: comp_def)
  qed
  then show ?thesis unfolding lines by simp
qed

text \<open>The text of an AUTH command is one line whatever the credentials are.\<close>

context base64_api
begin

lemma auth_render: "\<exists>l. auth_fmt B c = l @ crlf \<and> one_line l"
proof -
  have enc: "one_line (b64_encode B bs)" for bs
    using encode_graphic by (intro one_line_graphic) blast
  have mech: "one_line (mechanism_fmt m)" for m
    using mechanism_fmt_graphic(1) by (rule one_line_graphic)
  have "one_line (if supports_initial_response (auth_mechanism c)
       then ''AUTH '' @ mechanism_fmt (auth_mechanism c) @ '' '' @
              (case map_option (b64_encode B) (auth_response c) of None \<Rightarrow> '''' | Some r \<Rightarrow> r)
       else (case map_option (b64_encode B) (auth_response c) of
           Some r \<Rightarrow> r
         | None \<Rightarrow> ''AUTH '' @ mechanism_fmt (auth_mechanism c)))"
    by (cases "auth_response c") (simp_all add: enc mech)
  then show ?thesis unfolding auth_fmt_def Let_def by blast
qed

end

text \<open>A mechanism with an initial response has no answer to a challenge.\<close>

lemma auth_no_second_response:
  assumes "supports_initial_response m"
  shows "\<exists>e. auth_new_from_response B m c r = Inl e"
proof -
  have refused: "\<exists>e. mechanism_response m c (Some ch) = Inl e" for ch
    using sasl.challenge_refused[OF assms] by blast
  show ?thesis
  proof (cases "first_word r")
    case (Some w)
    show ?thesis
    proof (cases "b64_decode B w")
      case (Inr bytes)
      then show ?thesis using Some refused[of bytes] by (auto simp: auth_new_from_response_def)
    qed (simp add: auth_new_from_response_def Some)
  qed (simp add: auth_new_from_response_def)
qed

lemma one_lineI: "s = Some (l @ crlf) \<Longrightarrow> one_line l \<Longrightarrow> \<exists>l. s = Some (l @ crlf) \<and> one_line l"
  by blast

interpretation ehlo_cmd: smtp_command "\<lambda>c. Some (ehlo_fmt c)" "\<lambda>c. client_id_safe (ehlo_client_id c)"
  by unfold_locales
    (rule one_lineI[of _ "''EHLO '' @ client_id_fmt (ehlo_client_id c)" for c],
     simp add: ehlo_fmt_def, simp, rule client_id_one_line)

interpretation starttls_cmd: smtp_command "\<lambda>c. Some (starttls_fmt c)" "\<lambda>c. True"
  by unfold_locales (rule one_lineI[of _ "''STARTTLS''"], simp_all add: starttls_fmt_def)

interpretation mail_cmd: smtp_command mail_fmt mail_safe
  by unfold_locales (rule mail_render)

interpretation rcpt_cmd: smtp_command rcpt_fmt rcpt_safe
  by unfold_locales (rule rcpt_render)

interpretation data_cmd: smtp_command "\<lambda>c. Some (data_fmt c)" "\<lambda>c. True"
  by unfold_locales (rule one_lineI[of _ "''DATA''"], simp_all add: data_fmt_def)

interpretation quit_cmd: smtp_command "\<lambda>c. Some (quit_fmt c)" "\<lambda>c. True"
  by unfold_locales (rule one_lineI[of _ "''QUIT''"], simp_all add: quit_fmt_def)

interpretation noop_cmd: smtp_command "\<lambda>c. Some (noop_fmt c)" "\<lambda>c. True"
  by unfold_locales (rule one_lineI[of _ "''NOOP''"], simp_all add: noop_fmt_def)

interpretation help_cmd: smtp_command "\<lambda>c. Some (help_fmt c)"
  "\<lambda>c. case help_argument c of None \<Rightarrow> True | Some arg \<Rightarrow> one_line arg"
  by unfold_locales
    (rule one_lineI[of _ "''HELP'' @ (case help_argument c of None \<Rightarrow> [] | Some arg \<Rightarrow> '' '' @ arg)" for c],
     auto simp: help_fmt_def split: option.splits)

interpretation vrfy_cmd: smtp_command "\<lambda>c. Some (vrfy_fmt c)" "\<lambda>c. one_line (vrfy_argument c)"
  by unfold_locales
    (rule one_lineI[of _ "''VRFY '' @ vrfy_argument c" for c], simp_all add: vrfy_fmt_def)

interpretation expn_cmd: smtp_command "\<lambda>c. Some (expn_fmt c)" "\<lambda>c. one_line (expn_argument c)"
  by unfold_locales
    (rule one_lineI[of _ "''EXPN '' @ expn_argument c" for c], simp_all add: expn_fmt_def)

interpretation rset_cmd: smtp_command "\<lambda>c. Some (rset_fmt c)" "\<lambda>c. True"
  by unfold_locales (rule one_lineI[of _ "''RSET''"], simp_all add: rset_fmt_def)

interpretation auth_cmd: smtp_command "\<lambda>(B, c). Some (auth_fmt B c)" "\<lambda>(B, c). base64_api B"
  by unfold_locales (auto dest: base64_api.auth_render)

section \<open>Properties\<close>

text \<open>
  C23: MAIL commands and injection. The senders come from \<open>EmailAddress::new\<close>, the parameters are
  any. Every command is displayed without a panic; and a peer that splits what it receives at the
  CRLFs sees one line per command, in order, exactly when no keyword of an \<open>Other\<close> parameter holds a
  CRLF: neither an address nor a parameter value can add a command, an unchecked keyword can. The
  same holds with single line breaks in place of CRLFs.
\<close>

theorem mail_injection_exact:
  assumes "\<forall>c \<in> set cs. \<forall>a. mail_sender c = Some a \<longrightarrow> email_ok a"
  shows "(\<forall>c \<in> set cs. mail_fmt c \<noteq> None) \<and>
    ((\<exists>ls. map mail_fmt cs = map (\<lambda>l. Some (l @ crlf)) ls \<and>
        crlf_lines (concat (map (\<lambda>c. the (mail_fmt c)) cs)) = (ls, [])) \<longleftrightarrow>
      (\<forall>c \<in> set cs. \<forall>k v. OtherParam k v \<in> set (mail_parameters c) \<longrightarrow> \<not> has_crlf k)) \<and>
    ((\<forall>c \<in> set cs. \<exists>l. mail_fmt c = Some (l @ crlf) \<and> one_line l) \<longleftrightarrow>
      (\<forall>c \<in> set cs. \<forall>k v. OtherParam k v \<in> set (mail_parameters c) \<longrightarrow> one_line k))"
proof -
  let ?line = "\<lambda>c. mail_line (mail_parameters c) (mail_sender c)"
  have "has_crlf (?line c) \<longleftrightarrow> (\<exists>k v. OtherParam k v \<in> set (mail_parameters c) \<and> has_crlf k)"
    "one_line (?line c) \<longleftrightarrow> (\<forall>k v. OtherParam k v \<in> set (mail_parameters c) \<longrightarrow> one_line k)"
    if "c \<in> set cs" for c using mail_line_crlf assms that by blast+
  then have "(\<forall>c \<in> set cs. \<not> has_crlf (?line c)) \<longleftrightarrow>
      (\<forall>c \<in> set cs. \<forall>k v. OtherParam k v \<in> set (mail_parameters c) \<longrightarrow> \<not> has_crlf k)"
    "(\<forall>c \<in> set cs. one_line (?line c)) \<longleftrightarrow>
      (\<forall>c \<in> set cs. \<forall>k v. OtherParam k v \<in> set (mail_parameters c) \<longrightarrow> one_line k)" by blast+
  then show ?thesis
    using peer_sees_iff[of mail_fmt ?line cs, OF mail_fmt_line] by (simp add: mail_fmt_line)
qed

theorem mail_injection_exact_witness:
  "(\<exists>ls. map mail_fmt [mail_new None [OtherParam ''X'' (Some (crlf @ ''QUIT''))]] = map (\<lambda>l. Some (l @ crlf)) ls \<and>
     crlf_lines (concat (map (\<lambda>c. the (mail_fmt c)) [mail_new None [OtherParam ''X'' (Some (crlf @ ''QUIT''))]])) = (ls, [])) \<and>
   \<not> (\<exists>ls. map mail_fmt [mail_new None [OtherParam (''X'' @ crlf @ ''QUIT'') None]] = map (\<lambda>l. Some (l @ crlf)) ls \<and>
     crlf_lines (concat (map (\<lambda>c. the (mail_fmt c)) [mail_new None [OtherParam (''X'' @ crlf @ ''QUIT'') None]])) = (ls, []))"
  using mail_injection_exact[of "[mail_new None [OtherParam ''X'' (Some (crlf @ ''QUIT''))]]"]
    mail_injection_exact[of "[mail_new None [OtherParam (''X'' @ crlf @ ''QUIT'') None]]"]
  by (simp add: mail_new_def)

text \<open>
  C33: the same for RCPT commands, whose recipients come from \<open>EmailAddress::new\<close>: one line per
  command exactly when no keyword of a parameter holds a CRLF.
\<close>

theorem rcpt_injection_exact:
  assumes "\<forall>c \<in> set cs. email_ok (rcpt_recipient c)"
  shows "(\<forall>c \<in> set cs. rcpt_fmt c \<noteq> None) \<and>
    ((\<exists>ls. map rcpt_fmt cs = map (\<lambda>l. Some (l @ crlf)) ls \<and>
        crlf_lines (concat (map (\<lambda>c. the (rcpt_fmt c)) cs)) = (ls, [])) \<longleftrightarrow>
      (\<forall>c \<in> set cs. \<forall>k v. RcptOther k v \<in> set (rcpt_parameters c) \<longrightarrow> \<not> has_crlf k)) \<and>
    ((\<forall>c \<in> set cs. \<exists>l. rcpt_fmt c = Some (l @ crlf) \<and> one_line l) \<longleftrightarrow>
      (\<forall>c \<in> set cs. \<forall>k v. RcptOther k v \<in> set (rcpt_parameters c) \<longrightarrow> one_line k))"
proof -
  let ?line = rcpt_full_line
  have "has_crlf (?line c) \<longleftrightarrow> (\<exists>k v. RcptOther k v \<in> set (rcpt_parameters c) \<and> has_crlf k)"
    "one_line (?line c) \<longleftrightarrow> (\<forall>k v. RcptOther k v \<in> set (rcpt_parameters c) \<longrightarrow> one_line k)"
    if "c \<in> set cs" for c using rcpt_full_line_crlf assms that by blast+
  then have "(\<forall>c \<in> set cs. \<not> has_crlf (?line c)) \<longleftrightarrow>
      (\<forall>c \<in> set cs. \<forall>k v. RcptOther k v \<in> set (rcpt_parameters c) \<longrightarrow> \<not> has_crlf k)"
    "(\<forall>c \<in> set cs. one_line (?line c)) \<longleftrightarrow>
      (\<forall>c \<in> set cs. \<forall>k v. RcptOther k v \<in> set (rcpt_parameters c) \<longrightarrow> one_line k)" by blast+
  then show ?thesis
    using peer_sees_iff[of rcpt_fmt ?line cs, OF rcpt_fmt_full] by (simp add: rcpt_fmt_full)
qed

theorem rcpt_injection_exact_witness:
  "(\<exists>ls. map rcpt_fmt [rcpt_new (EmailAddress ''a@b'') [], rcpt_new (EmailAddress ''c@d'') []] =
       map (\<lambda>l. Some (l @ crlf)) ls \<and>
     crlf_lines (concat (map (\<lambda>c. the (rcpt_fmt c))
       [rcpt_new (EmailAddress ''a@b'') [], rcpt_new (EmailAddress ''c@d'') []])) = (ls, [])) \<and>
   \<not> (\<exists>ls. map rcpt_fmt [rcpt_new (EmailAddress ''a@b'') [RcptOther (''X'' @ crlf @ ''QUIT'') None]] =
       map (\<lambda>l. Some (l @ crlf)) ls \<and>
     crlf_lines (concat (map (\<lambda>c. the (rcpt_fmt c))
       [rcpt_new (EmailAddress ''a@b'') [RcptOther (''X'' @ crlf @ ''QUIT'') None]])) = (ls, []))"
  using rcpt_injection_exact[of "[rcpt_new (EmailAddress ''a@b'') [], rcpt_new (EmailAddress ''c@d'') []]"]
    rcpt_injection_exact[of "[rcpt_new (EmailAddress ''a@b'') [RcptOther (''X'' @ crlf @ ''QUIT'') None]]"]
  by (simp add: rcpt_new_def email_ok_iff graphic_def)

text \<open>
  C38: VRFY, EXPN, HELP and EHLO write their argument as it is. Whatever the argument is, the peer
  sees the verb with the argument up to its first CRLF, and takes each further CRLF in it for the
  end of a further command: one line exactly when the argument holds no CRLF.
\<close>

theorem argument_injection:
  assumes "\<not> has_crlf a"
  shows "crlf_lines (vrfy_fmt (vrfy_new a)) = ([''VRFY '' @ a], []) \<and>
    crlf_lines (expn_fmt (expn_new a)) = ([''EXPN '' @ a], []) \<and>
    crlf_lines (help_fmt (help_new (Some a))) = ([''HELP '' @ a], []) \<and>
    crlf_lines (ehlo_fmt (ehlo_new (Domain a))) = ([''EHLO '' @ a], []) \<and>
    (\<forall>b ls q. crlf_lines (b @ crlf) = (ls, q) \<longrightarrow> ls \<noteq> [] \<and>
      crlf_lines (vrfy_fmt (vrfy_new (a @ crlf @ b))) = ((''VRFY '' @ a) # ls, q) \<and>
      crlf_lines (expn_fmt (expn_new (a @ crlf @ b))) = ((''EXPN '' @ a) # ls, q) \<and>
      crlf_lines (help_fmt (help_new (Some (a @ crlf @ b)))) = ((''HELP '' @ a) # ls, q) \<and>
      crlf_lines (ehlo_fmt (ehlo_new (Domain (a @ crlf @ b)))) = ((''EHLO '' @ a) # ls, q))"
proof -
  have verb: "crlf_lines (v @ a @ crlf @ r) = (let (ls, q) = crlf_lines r in ((v @ a) # ls, q))"
    if "CR \<notin> set v" for v r
  proof -
    have "\<not> has_crlf (v @ a)" using assms has_crlf_no_CR[OF that, of a] by simp
    from crlf_lines_line[OF this, of r] show ?thesis by simp
  qed
  have "crlf_lines (b @ crlf) = (ls, q) \<Longrightarrow> ls \<noteq> []" for b ls q using crlf_lines_crlf[of b] by auto
  then show ?thesis
    using verb[of "''VRFY ''"] verb[of "''EXPN ''"] verb[of "''HELP ''"] verb[of "''EHLO ''"]
    by (auto simp: vrfy_fmt_def vrfy_new_def expn_fmt_def expn_new_def help_fmt_def help_new_def
        ehlo_fmt_def ehlo_new_def split: prod.splits)
qed

theorem argument_injection_witness:
  "crlf_lines (vrfy_fmt (vrfy_new (''a'' @ crlf @ ''QUIT''))) = ([''VRFY a'', ''QUIT''], [])"
  using argument_injection[of "''a''"] by (simp add: crlf_lines_def)

text \<open>
  C24: AUTH PLAIN: the command is always built, it is a single line whatever the credentials hold,
  and the server that decodes the base64 text on it finds the user name and the password the
  credentials were made from, when the user name holds no NUL.
\<close>

theorem auth_plain_delivers_credentials:
  assumes "base64_api B" and "NUL \<notin> set user"
  shows "\<exists>cmd b64. auth_new Plain (credentials_new user password) None = Inr cmd \<and>
    auth_fmt B cmd = ''AUTH PLAIN '' @ b64 @ crlf \<and> one_line b64 \<and>
    (\<exists>bs. b64_decode B b64 = Inr bs \<and> plain_fields bs = Some ([], user, password))"
proof -
  note enc = base64_api.encode_graphic[OF assms(1)]
  let ?bs = "[NUL] @ user @ [NUL] @ password"
  have "one_line (b64_encode B ?bs)" using enc by (intro one_line_graphic) blast
  moreover have "plain_fields ?bs = Some ([], user, password)"
    using plain_fields_response[of "credentials_new user password" ?bs] assms(2)
    by (simp add: credentials_new_def)
  ultimately show ?thesis
    using base64_api.decode_encode[OF assms(1)]
    by (auto simp: auth_new_def auth_fmt_def credentials_new_def)
qed

theorem auth_plain_delivers_credentials_witness:
  "\<exists>cmd b64. auth_new Plain (credentials_new ''user'' ''pw'') None = Inr cmd \<and>
    auth_fmt base64_ref cmd = ''AUTH PLAIN '' @ b64 @ crlf \<and> one_line b64 \<and>
    (\<exists>bs. b64_decode base64_ref b64 = Inr bs \<and> plain_fields bs = Some ([], ''user'', ''pw''))"
  by (rule auth_plain_delivers_credentials[OF b64_ref.base64_api_axioms]) simp

text \<open>
  Which mechanism answers what: \<open>AuthCommand::new\<close> without a challenge never fails, and it
  carries a response exactly for the mechanisms that support an initial response.
\<close>

theorem auth_opening_total:
  "\<exists>cmd. auth_new m c None = Inr cmd \<and> auth_mechanism cmd = m \<and>
     (auth_response cmd \<noteq> None \<longleftrightarrow> supports_initial_response m)"
  using sasl.opening_response[of m c]
  by (auto simp: auth_new_def split: sum.splits)

end
