(* ===== verification/Smtp_Stream.thy ===== *)
theory Smtp_Stream
  imports Smtp_Codec Smtp_Commands
begin

text \<open>
  \<open>src/stream.rs\<close>: \<open>SmtpStream\<close>, which sends commands and bodies over the connection and
  reads replies. The wrapper holds nothing but the inner stream, so its state is the state of the
  connection. \<open>read_response\<close> loops until a reply is complete; a peer that never completes one
  makes it run for ever, which is the result \<open>None\<close>. The calls of \<open>debug!\<close> are left out.
\<close>

section \<open>The code\<close>

definition stream_new :: "'s \<Rightarrow> 's" where
  "stream_new stream = stream"

definition into_inner :: "'s \<Rightarrow> 's" where
  "into_inner stream = stream"

definition stream_write :: "'s stream_ops \<Rightarrow> byte list \<Rightarrow> ('s, unit) action" where
  "stream_write W bs =
     bind_action (lift_io (op_write_all W bs)) (\<lambda>_.
     bind_action (lift_io (op_flush W)) (\<lambda>_. return_action ()))"

text \<open>A command is what its \<open>to_string()\<close> gives; \<open>None\<close> is a panic in it.\<close>

definition send_command :: "'s stream_ops \<Rightarrow> string option \<Rightarrow> ('s, unit) action" where
  "send_command W command s = (case command of
      None \<Rightarrow> Some (Panic, s)
    | Some text \<Rightarrow> bind_action (stream_write W text) (\<lambda>_. return_action ()) s)"

definition incomplete_error :: error where
  "incomplete_error = Io \<lparr>io_kind = OtherKind, io_text = ''incomplete''\<rparr>"

partial_function (option) read_response_loop ::
  "nom_lib \<Rightarrow> 's stream_ops \<Rightarrow> string \<Rightarrow> 's \<Rightarrow> (response outcome \<times> 's) option"
where
  "read_response_loop N W buffer s =
     (case op_read_line W buffer s of (result, buffer', s') \<Rightarrow>
       (case result of
          Inl e \<Rightarrow> Some (Err (Io e), s')
        | Inr n \<Rightarrow>
            (if n = 0 then Some (Err incomplete_error, s')
             else (case parse_response N buffer' of
                Inr (remaining, response) \<Rightarrow>
                  (if is_positive response then Some (Ok response, s')
                   else Some (Err (error_from_response response), s'))
              | Inl err \<Rightarrow> (case err of
                    Failure e \<Rightarrow> Some (Err (Parsing (code_kind e)), s')
                  | Incomplete needed \<Rightarrow> read_response_loop N W buffer' s'
                  | Error e \<Rightarrow> Some (Err (Parsing (code_kind e)), s'))))))"

definition read_response :: "nom_lib \<Rightarrow> 's stream_ops \<Rightarrow> ('s, response) action" where
  "read_response N W = read_response_loop N W ''''"

definition command :: "nom_lib \<Rightarrow> 's stream_ops \<Rightarrow> string option \<Rightarrow> ('s, response) action" where
  "command N W cmd = bind_action (send_command W cmd) (\<lambda>_. read_response N W)"

definition ehlo :: "nom_lib \<Rightarrow> 's stream_ops \<Rightarrow> client_id \<Rightarrow> ('s, response) action" where
  "ehlo N W client_id =
     bind_action (command N W (Some (ehlo_fmt (ehlo_new client_id)))) (\<lambda>ehlo_response.
     return_action ehlo_response)"

definition encode_action :: "'s stream_ops \<Rightarrow> client_codec \<Rightarrow> byte list \<Rightarrow> ('s, unit) action" where
  "encode_action W codec bs s = (case encode W codec bs s of
      (None, codec, s) \<Rightarrow> Some (Panic, s)
    | (Some r, codec, s) \<Rightarrow> lift_io (\<lambda>s. (r, s)) s)"

text \<open>Reading the body does not touch the stream; a reader that stays pending for ever never returns.\<close>

definition lift_read :: "(io_error + 'a) option \<Rightarrow> ('s, 'a) action" where
  "lift_read result s = map_option (\<lambda>r. case r of Inl e \<Rightarrow> (Err (Io e), s) | Inr x \<Rightarrow> (Ok x, s)) result"

definition stream_message ::
  "nom_lib \<Rightarrow> 's stream_ops \<Rightarrow> 'r read_lib \<Rightarrow> 'r message \<Rightarrow> ('s, response) action" where
  "stream_message N W R msg =
     (let codec = client_codec_new in
      bind_action (lift_read (read_to_end R (message_poll_read R) msg)) (\<lambda>message_bytes.
      bind_action (encode_action W codec message_bytes) (\<lambda>_.
      bind_action (lift_io (op_write_all W (crlf @ ''.'' @ crlf))) (\<lambda>_.
      bind_action (lift_io (op_flush W)) (\<lambda>_.
      read_response N W)))))"

text \<open>\<open>str::replace("\r\n", "<CRLF>")\<close>, used on what is logged.\<close>

fun escape_crlf :: "string \<Rightarrow> string" where
  "escape_crlf (a # b # r) =
     (if a = CR \<and> b = LF then ''<CRLF>'' @ escape_crlf r else a # escape_crlf (b # r))"
| "escape_crlf s = s"

lemma escape_crlf_hd: "s \<noteq> [] \<Longrightarrow> hd s \<noteq> LF \<Longrightarrow> escape_crlf s \<noteq> [] \<and> hd (escape_crlf s) \<noteq> LF"
  by (induction s rule: escape_crlf.induct) auto

lemma escape_crlf_no_crlf: "\<not> has_crlf (escape_crlf s)"
proof (induction s rule: escape_crlf.induct)
  case (1 a b r)
  show ?case
  proof (cases "a = CR \<and> b = LF")
    case True
    then show ?thesis using 1(1) by (cases "escape_crlf r") auto
  next
    case False
    then have "\<not> has_crlf (escape_crlf (b # r))" using 1(2) by simp
    moreover have "a = CR \<Longrightarrow> hd (escape_crlf (b # r)) \<noteq> LF"
      using False escape_crlf_hd[of "b # r"] by auto
    ultimately show ?thesis
      using False by (cases "escape_crlf (b # r)") auto
  qed
qed auto

section \<open>The connection and the parser together\<close>

definition positive_reply :: "response \<Rightarrow> bool" where
  "positive_reply r \<longleftrightarrow> wf_response r \<and> is_positive r"

definition replies_string :: "response list \<Rightarrow> string" where
  "replies_string rs = concat (map reply_string rs)"

lemma replies_string_simps [simp]:
  "replies_string [] = []" "replies_string (r # rs) = reply_string r @ replies_string rs"
  "replies_string (rs @ rs') = replies_string rs @ replies_string rs'"
  by (simp_all add: replies_string_def)

text \<open>What a returned outcome tells about the bytes that were read.\<close>

definition reply_outcome :: "byte list \<Rightarrow> byte list \<Rightarrow> response outcome \<Rightarrow> bool" where
  "reply_outcome before after o1 \<longleftrightarrow> prefix before after \<and> (case o1 of
      Panic \<Rightarrow> False
    | Ok r \<Rightarrow> wf_response r \<and> is_positive r \<and> after = before @ reply_string r
    | Err e \<Rightarrow>
        (\<exists>r. wf_response r \<and> \<not> is_positive r \<and> e = error_from_response r
             \<and> after = before @ reply_string r)
        \<or> (\<exists>x. e = Io x) \<or> (\<exists>k. e = Parsing k))"

text \<open>How the value of an action relates to the replies it has read.\<close>

definition no_reply :: "'a \<Rightarrow> response list \<Rightarrow> bool" where
  "no_reply x rs \<longleftrightarrow> rs = []"

definition one_reply :: "response \<Rightarrow> response list \<Rightarrow> bool" where
  "one_reply r rs \<longleftrightarrow> rs = [r]"

definition replies :: "nat \<Rightarrow> 'a \<Rightarrow> response list \<Rightarrow> bool" where
  "replies n x rs \<longleftrightarrow> length rs = n"

text \<open>What the body of a message puts on the wire, the end mark the stream writes included.\<close>

definition body_text :: "byte list \<Rightarrow> byte list" where
  "body_text m = (if m = [] then end_mark 0 else stuff 0 m) @ data_end"

locale smtp_session = smtp_wire W sent received + nom_api N
  for W :: "'s stream_ops" and sent and received and N
begin

text \<open>
  The loop keeps in its buffer what it has read, which is not yet a whole reply. Since a read stops
  at a line feed, a reply is complete exactly at the end of a read, and nothing is left over.
\<close>

definition unfinished :: "string \<Rightarrow> bool" where
  "unfinished buf \<longleftrightarrow> buf = [] \<or> (\<exists>n. parse_response N buf = Inl (Incomplete n))"

lemma reply_string_LF: "\<exists>x. reply_string r = x @ crlf"
  by (simp add: reply_string_def raw_reply_def reply_text_def)

lemma no_remaining:
  assumes "unfinished buf" and "line_chunk l" and "parse_response N (buf @ l) = Inr (rest, r)"
  shows "rest = []"
proof (rule ccontr)
  assume rest: "rest \<noteq> []"
  have r: "wf_response r" "buf @ l = reply_string r @ rest"
    using assms(3) parse_response_Inr_iff by blast+
  obtain x where x: "reply_string r = x @ crlf" using reply_string_LF by blast
  from r(2) consider us where "buf = reply_string r @ us" | us where "reply_string r = buf @ us" "us \<noteq> []" "l = us @ rest"
    by (metis append_eq_append_conv2 append_self_conv)
  then show False
  proof cases
    case (1 us)
    then have "parse_response N buf = Inr (us, r)" using r(1) parse_response_Inr_iff by blast
    moreover have "buf \<noteq> []" using 1 x by simp
    ultimately show False using assms(1) by (simp add: unfinished_def)
  next
    case (2 us)
    then have "last us = LF" using x by (metis last_appendR last_ConsR last.simps list.distinct(1))
    then have "LF \<in> set us" using 2(2) last_in_set by metis
    then have "LF \<in> set (butlast l)" using 2(3) rest by (simp add: butlast_append)
    with assms(2) show False by (simp add: line_chunk_def)
  qed
qed

lemma read_response_loop_result:
  assumes "read_response_loop N W buf s = Some (o1, s')"
    and "unfinished buf" and "received s = before @ buf"
  shows "sent s' = sent s \<and> reply_outcome before (received s') o1"
proof -
  let ?P = "\<lambda>buf s (p :: response outcome \<times> 's).
    unfinished buf \<longrightarrow> received s = before @ buf \<longrightarrow>
      sent (snd p) = sent s \<and> reply_outcome before (received (snd p)) (fst p)"
  have "N = N \<longrightarrow> W = W \<longrightarrow> ?P buf s (o1, s')"
  proof (rule read_response_loop.raw_induct[where P = "\<lambda>N' W' buf s p. N' = N \<longrightarrow> W' = W \<longrightarrow> ?P buf s p",
        OF _ assms(1)])
    fix f N' W' buf s p
    assume IH: "\<And>N' W' buf s p. f N' W' buf s = Some p \<Longrightarrow> N' = N \<longrightarrow> W' = W \<longrightarrow> ?P buf s p"
      and body: "(case op_read_line W' buf s of (result, buffer', s') \<Rightarrow>
       (case result of
          Inl e \<Rightarrow> Some (Err (Io e), s')
        | Inr n \<Rightarrow>
            (if n = 0 then Some (Err incomplete_error, s')
             else (case parse_response N' buffer' of
                Inr (remaining, response) \<Rightarrow>
                  (if is_positive response then Some (Ok response, s')
                   else Some (Err (error_from_response response), s'))
              | Inl err \<Rightarrow> (case err of
                    Failure e \<Rightarrow> Some (Err (Parsing (code_kind e)), s')
                  | Incomplete needed \<Rightarrow> f N' W' buffer' s'
                  | Error e \<Rightarrow> Some (Err (Parsing (code_kind e)), s')))))) = Some p"
    show "N' = N \<longrightarrow> W' = W \<longrightarrow> ?P buf s p"
    proof (intro impI)
      assume eqs: "N' = N" "W' = W" and unf: "unfinished buf" and rcv: "received s = before @ buf"
      obtain res buf1 s1 where rd: "op_read_line W buf s = (res, buf1, s1)" by (metis surj_pair)
      show "sent (snd p) = sent s \<and> reply_outcome before (received (snd p)) (fst p)"
      proof (cases res)
        case (Inl e)
        with rd have "sent s1 = sent s" "prefix (received s) (received s1)" using read_Err by blast+
        then show ?thesis
          using body rd Inl rcv eqs by (auto simp: reply_outcome_def prefix_def)
      next
        case (Inr n)
        then obtain l where l: "line_chunk l" "n = length l" "buf1 = buf @ l"
          "received s1 = before @ buf @ l" "sent s1 = sent s"
          using read_Ok rd rcv by fastforce
        show ?thesis
        proof (cases "parse_response N buf1")
          case (Inr q)
          then obtain rest r where q: "parse_response N (buf @ l) = Inr (rest, r)"
            using l(3) by (cases q) auto
          then have "rest = []" using no_remaining unf l(1) by blast
          then have "wf_response r" "buf @ l = reply_string r"
            using q parse_response_Inr_iff by auto
          then show ?thesis
            using body rd \<open>res = Inr n\<close> q l eqs
            by (auto simp: reply_outcome_def incomplete_error_def split: if_splits)
        next
          case (Inl err)
          show ?thesis
          proof (cases err)
            case (Incomplete k)
            then show ?thesis
              using body rd \<open>res = Inr n\<close> Inl l eqs IH[of N W "buf @ l" s1 p]
              by (auto simp: reply_outcome_def unfinished_def incomplete_error_def split: if_splits)
          qed (use body rd \<open>res = Inr n\<close> Inl l eqs in
            \<open>auto simp: reply_outcome_def incomplete_error_def split: if_splits\<close>)
        qed
      qed
    qed
  qed
  then show ?thesis using assms by simp
qed

lemma lift_read_Inr: "bind_action (lift_read (Some (Inr x))) f = f x"
  by (rule ext) (simp add: bind_action_def lift_read_def)

lemma read_response_result:
  "read_response N W s = Some (o1, s') \<Longrightarrow>
   sent s' = sent s \<and> reply_outcome (received s) (received s') o1"
  unfolding read_response_def
  by (rule read_response_loop_result[where buf = "[]"]) (simp_all add: unfinished_def)

lemma read_response_Ok:
  "read_response N W s = Some (Ok r, s') \<Longrightarrow>
   sent s' = sent s \<and> received s' = received s @ reply_string r \<and> wf_response r \<and> is_positive r"
  using read_response_result by (fastforce simp: reply_outcome_def)

text \<open>
  \<open>exchange m T V\<close>: the action \<open>m\<close> sends \<open>T\<close>, or a part of it if it fails; if it returns a
  value, it has read positive replies \<open>rs\<close> and nothing else, with \<open>V\<close> relating the two.
\<close>

definition exchange :: "('s, 'a) action \<Rightarrow> byte list \<Rightarrow> ('a \<Rightarrow> response list \<Rightarrow> bool) \<Rightarrow> bool" where
  "exchange m T V \<longleftrightarrow> (\<forall>s o1 s'. m s = Some (o1, s') \<longrightarrow> prefix (received s) (received s') \<and>
     (case o1 of
        Panic \<Rightarrow> False
      | Err e \<Rightarrow> \<exists>p. prefix p T \<and> sent s' = sent s @ p
      | Ok x \<Rightarrow> sent s' = sent s @ T \<and>
          (\<exists>rs. V x rs \<and> (\<forall>r \<in> set rs. positive_reply r) \<and>
             received s' = received s @ replies_string rs)))"

lemma exchange_Ok:
  assumes "exchange m T V" and "m s = Some (Ok x, s')"
  obtains rs where "sent s' = sent s @ T" "V x rs" "\<forall>r \<in> set rs. positive_reply r"
    "received s' = received s @ replies_string rs"
  using assms by (fastforce simp: exchange_def)

lemma exchange_Err:
  assumes "exchange m T V" and "m s = Some (Err e, s')"
  obtains p where "prefix p T" "sent s' = sent s @ p" "prefix (received s) (received s')"
  using assms by (fastforce simp: exchange_def)

lemma exchange_no_panic: "exchange m T V \<Longrightarrow> m s \<noteq> Some (Panic, s')"
  by (fastforce simp: exchange_def)

lemma exchangeI:
  assumes "\<And>s x s'. m s = Some (Ok x, s') \<Longrightarrow> sent s' = sent s @ T \<and>
      (\<exists>rs. V x rs \<and> (\<forall>r \<in> set rs. positive_reply r) \<and> received s' = received s @ replies_string rs)"
    and "\<And>s e s'. m s = Some (Err e, s') \<Longrightarrow> prefix (received s) (received s') \<and>
      (\<exists>p. prefix p T \<and> sent s' = sent s @ p)"
    and "\<And>s s'. m s \<noteq> Some (Panic, s')"
  shows "exchange m T V"
  unfolding exchange_def
proof (intro allI impI)
  fix s o1 s'
  assume m: "m s = Some (o1, s')"
  show "prefix (received s) (received s') \<and> (case o1 of
        Panic \<Rightarrow> False
      | Err e \<Rightarrow> \<exists>p. prefix p T \<and> sent s' = sent s @ p
      | Ok x \<Rightarrow> sent s' = sent s @ T \<and>
          (\<exists>rs. V x rs \<and> (\<forall>r \<in> set rs. positive_reply r) \<and>
             received s' = received s @ replies_string rs))"
  proof (cases o1)
    case (Ok x)
    with assms(1) m show ?thesis by fastforce
  next
    case (Err e)
    with assms(2) m show ?thesis by fastforce
  next
    case Panic
    with assms(3) m show ?thesis by simp
  qed
qed

lemma exchange_mono: "exchange m T V \<Longrightarrow> (\<And>x rs. V x rs \<Longrightarrow> V' x rs) \<Longrightarrow> exchange m T V'"
  unfolding exchange_def by (fastforce split: outcome.splits)

lemma exchange_return: "exchange (return_action x) [] (\<lambda>y rs. y = x \<and> rs = [])"
  by (rule exchangeI) (auto simp: return_action_def replies_string_def)

lemma exchange_bind:
  assumes m: "exchange m T V" and f: "\<And>x. exchange (f x) T' (V' x)"
  shows "exchange (bind_action m f) (T @ T')
    (\<lambda>y rs. \<exists>x rs1 rs2. rs = rs1 @ rs2 \<and> V x rs1 \<and> V' x y rs2)"
proof (rule exchangeI)
  fix s y s''
  assume "bind_action m f s = Some (Ok y, s'')"
  then obtain x s' where 1: "m s = Some (Ok x, s')" and 2: "f x s' = Some (Ok y, s'')"
    by (auto simp: bind_action_Ok)
  from m 1 obtain rs1 where rs1: "sent s' = sent s @ T" "V x rs1" "\<forall>r \<in> set rs1. positive_reply r"
    "received s' = received s @ replies_string rs1" by (rule exchange_Ok)
  from f 2 obtain rs2 where rs2: "sent s'' = sent s' @ T'" "V' x y rs2"
    "\<forall>r \<in> set rs2. positive_reply r" "received s'' = received s' @ replies_string rs2" by (rule exchange_Ok)
  show "sent s'' = sent s @ T @ T' \<and>
      (\<exists>rs. (\<exists>x rs1 rs2. rs = rs1 @ rs2 \<and> V x rs1 \<and> V' x y rs2) \<and>
         (\<forall>r \<in> set rs. positive_reply r) \<and> received s'' = received s @ replies_string rs)"
    using rs1 rs2 by (intro conjI exI[of _ "rs1 @ rs2"]) (auto simp: replies_string_def)
next
  fix s e s''
  assume "bind_action m f s = Some (Err e, s'')"
  then consider "m s = Some (Err e, s'')" | x s' where "m s = Some (Ok x, s')" "f x s' = Some (Err e, s'')"
    by (auto simp: bind_action_Err)
  then show "prefix (received s) (received s'') \<and> (\<exists>p. prefix p (T @ T') \<and> sent s'' = sent s @ p)"
  proof cases
    case 1
    with m obtain p where "prefix p T" "sent s'' = sent s @ p" "prefix (received s) (received s'')"
      by (rule exchange_Err)
    then show ?thesis by (meson prefix_prefix)
  next
    case (2 x s')
    obtain rs where 3: "sent s' = sent s @ T" "received s' = received s @ replies_string rs"
      using exchange_Ok[OF m 2(1)] by metis
    obtain p where "prefix p T'" "sent s'' = sent s' @ p" "prefix (received s') (received s'')"
      using exchange_Err[OF f 2(2)] by metis
    with 3 show ?thesis
      by (intro conjI exI[of _ "T @ p"]) (auto simp: prefix_def)
  qed
next
  fix s s''
  show "bind_action m f s \<noteq> Some (Panic, s'')"
    using exchange_no_panic[OF m] exchange_no_panic[OF f] by (auto simp: bind_action_Panic)
qed

text \<open>The operations of the stream, one exchange each.\<close>

lemma exchange_bind_no_reply:
  "exchange m T no_reply \<Longrightarrow> (\<And>x. exchange (f x) T' V) \<Longrightarrow> exchange (bind_action m f) (T @ T') V"
  by (rule exchange_mono[OF exchange_bind]) (auto simp: no_reply_def)

lemma exchange_done: "exchange (return_action x) [] no_reply"
  by (rule exchange_mono[OF exchange_return]) (simp add: no_reply_def)

lemma exchange_write_all: "exchange (lift_io (op_write_all W bs)) bs no_reply"
proof (rule exchangeI)
  fix s x s'
  assume "lift_io (op_write_all W bs) s = Some (Ok x, s')"
  then have w: "op_write_all W bs s = (Inr x, s')"
    by (auto simp: lift_io_def split: prod.splits sum.splits)
  show "sent s' = sent s @ bs \<and> (\<exists>rs. no_reply x rs \<and> (\<forall>r \<in> set rs. positive_reply r) \<and>
      received s' = received s @ replies_string rs)"
    using write_Ok[OF w] write_received[OF w] by (simp add: no_reply_def)
next
  fix s e s'
  assume "lift_io (op_write_all W bs) s = Some (Err e, s')"
  then obtain x where w: "op_write_all W bs s = (Inl x, s')"
    by (auto simp: lift_io_def split: prod.splits sum.splits)
  show "prefix (received s) (received s') \<and> (\<exists>p. prefix p bs \<and> sent s' = sent s @ p)"
    using write_Err[OF w] write_received[OF w] by simp
qed (auto simp: lift_io_def split: prod.splits sum.splits)

lemma exchange_flush: "exchange (lift_io (op_flush W)) [] no_reply"
proof (rule exchangeI)
  fix s x s'
  assume "lift_io (op_flush W) s = Some (Ok x, s')"
  then obtain r where w: "op_flush W s = (r, s')"
    by (auto simp: lift_io_def split: prod.splits sum.splits)
  show "sent s' = sent s @ [] \<and> (\<exists>rs. no_reply x rs \<and> (\<forall>r \<in> set rs. positive_reply r) \<and>
      received s' = received s @ replies_string rs)"
    using flush_sent[OF w] flush_received[OF w] by (simp add: no_reply_def)
next
  fix s e s'
  assume "lift_io (op_flush W) s = Some (Err e, s')"
  then obtain r where w: "op_flush W s = (r, s')"
    by (auto simp: lift_io_def split: prod.splits sum.splits)
  show "prefix (received s) (received s') \<and> (\<exists>p. prefix p [] \<and> sent s' = sent s @ p)"
    using flush_sent[OF w] flush_received[OF w] by simp
qed (auto simp: lift_io_def split: prod.splits sum.splits)

lemma exchange_stream_write: "exchange (stream_write W bs) bs no_reply"
  unfolding stream_write_def
  by (rule exchange_bind_no_reply[where T = bs and T' = "[]", OF exchange_write_all, simplified],
      rule exchange_bind_no_reply[where T = "[]" and T' = "[]", OF exchange_flush exchange_done, simplified])

lemma exchange_send_command: "exchange (send_command W (Some t)) t no_reply"
proof -
  have "send_command W (Some t) = stream_write W t"
    by (rule ext) (simp add: send_command_def flip: return_action_def)
  then show ?thesis using exchange_stream_write by simp
qed

lemma exchange_read_response: "exchange (read_response N W) [] one_reply"
proof (rule exchangeI)
  fix s r s'
  assume "read_response N W s = Some (Ok r, s')"
  from read_response_Ok[OF this]
  show "sent s' = sent s @ [] \<and> (\<exists>rs. one_reply r rs \<and> (\<forall>r \<in> set rs. positive_reply r) \<and>
      received s' = received s @ replies_string rs)"
    by (intro conjI exI[of _ "[r]"]) (simp_all add: one_reply_def positive_reply_def)
next
  fix s e s'
  assume "read_response N W s = Some (Err e, s')"
  from read_response_result[OF this]
  show "prefix (received s) (received s') \<and> (\<exists>p. prefix p [] \<and> sent s' = sent s @ p)"
    by (simp add: reply_outcome_def)
next
  fix s s'
  show "read_response N W s \<noteq> Some (Panic, s')"
    using read_response_result by (fastforce simp: reply_outcome_def)
qed

lemma exchange_command: "exchange (command N W (Some t)) t one_reply"
  unfolding command_def
  using exchange_bind_no_reply[OF exchange_send_command exchange_read_response] by simp

lemma command_Ok:
  assumes "command N W (Some t) s = Some (Ok r, s')"
  shows "sent s' = sent s @ t" and "positive_reply r" and "received s' = received s @ reply_string r"
  using exchange_Ok[OF exchange_command assms] by (auto simp: one_reply_def)

lemma exchange_encode:
  "exchange (encode_action W client_codec_new m) (if m = [] then end_mark 0 else stuff 0 m) no_reply"
    (is "exchange ?e ?T _")
proof -
  have ok: "codec_ok client_codec_new" "escape_count client_codec_new = 0"
    by (simp_all add: codec_ok_def client_codec_new_def)
  have written: "(r = Some (Inr ()) \<and> sent s' = sent s @ ?T) \<or>
      (\<exists>e p. r = Some (Inl e) \<and> prefix p ?T \<and> sent s' = sent s @ p)"
    if enc: "encode W client_codec_new m s = (r, k, s')" for r k s s'
  proof (cases "m = []")
    case True
    from ok(1) enc[unfolded True] show ?thesis
      by (cases rule: encode_empty) (auto simp: True ok(2))
  next
    case False
    from ok(1) False enc show ?thesis
      by (cases rule: encode_writes) (auto simp: False ok(2))
  qed
  have kept: "received s' = received s" if enc: "encode W client_codec_new m s = (r, k, s')" for r k s s'
    by (rule encode_keeps[where Q = "\<lambda>x. received x = received s", OF _ enc])
      (use write_received in auto)
  show ?thesis
  proof (rule exchangeI)
    fix s x s'
    assume "encode_action W client_codec_new m s = Some (Ok x, s')"
    then obtain k where e: "encode W client_codec_new m s = (Some (Inr x), k, s')"
      by (auto simp: encode_action_def lift_io_def split: prod.splits option.splits sum.splits)
    show "sent s' = sent s @ ?T \<and> (\<exists>rs. no_reply x rs \<and> (\<forall>r \<in> set rs. positive_reply r) \<and>
        received s' = received s @ replies_string rs)"
      using written[OF e] kept[OF e] by (simp add: no_reply_def)
  next
    fix s e s'
    assume "encode_action W client_codec_new m s = Some (Err e, s')"
    then obtain k x where e: "encode W client_codec_new m s = (Some (Inl x), k, s')"
      by (auto simp: encode_action_def lift_io_def split: prod.splits option.splits sum.splits)
    show "prefix (received s) (received s') \<and> (\<exists>p. prefix p ?T \<and> sent s' = sent s @ p)"
      using written[OF e] kept[OF e] by simp
  next
    fix s s'
    show "encode_action W client_codec_new m s \<noteq> Some (Panic, s')"
      using encode_no_panic[OF ok(1)]
      by (auto simp: encode_action_def lift_io_def split: prod.splits option.splits sum.splits)
  qed
qed

lemma exchange_message:
  assumes "read_to_end R (message_poll_read R) msg = Some (Inr bs)"
  shows "exchange (stream_message N W R msg) (body_text bs) one_reply"
proof -
  have "stream_message N W R msg =
     bind_action (encode_action W client_codec_new bs) (\<lambda>_.
     bind_action (lift_io (op_write_all W data_end)) (\<lambda>_.
     bind_action (lift_io (op_flush W)) (\<lambda>_. read_response N W)))"
    by (simp add: stream_message_def assms lift_read_Inr data_end_def)
  moreover have "exchange \<dots>
      ((if bs = [] then end_mark 0 else stuff 0 bs) @ data_end @ [] @ []) one_reply"
    by (intro exchange_bind_no_reply exchange_encode exchange_write_all exchange_flush
        exchange_read_response)
  ultimately show ?thesis by (simp add: body_text_def)
qed

lemma message_sent:
  "read_to_end R (message_poll_read R) msg = Some (Inr bs) \<Longrightarrow> stream_message N W R msg s = Some (Ok r, s') \<Longrightarrow>
   sent s' = sent s @ body_text bs"
  using exchange_Ok[OF exchange_message] by metis

lemma message_read_error:
  "read_to_end R (message_poll_read R) msg = Some (Inl e) \<Longrightarrow>
   stream_message N W R msg s = Some (Err (Io e), s)"
  "read_to_end R (message_poll_read R) msg = None \<Longrightarrow> stream_message N W R msg s = None"
  by (simp_all add: stream_message_def bind_action_def lift_read_def)

end

section \<open>Connections that answer\<close>

definition reply_result :: "response \<Rightarrow> response outcome" where
  "reply_result r = (if is_positive r then Ok r else Err (error_from_response r))"

text \<open>A reply the stream can read: its text is valid UTF-8 and its lines are lines.\<close>

definition readable :: "response \<Rightarrow> bool" where
  "readable r \<longleftrightarrow> wf_response r \<and> utf8_valid (reply_string r)"

locale live_session = smtp_session W sent received N + live_wire W sent received pending answers
  for W :: "'s stream_ops" and sent received N pending answers
begin

text \<open>\<open>yields m s o P A\<close>: the action returns with the outcome \<open>o\<close>, leaving what is pending.\<close>

definition yields :: "('s, 'a) action \<Rightarrow> 's \<Rightarrow> 'a outcome \<Rightarrow> byte list \<Rightarrow> byte list list \<Rightarrow> bool" where
  "yields m s o1 P A \<longleftrightarrow> (\<exists>s'. m s = Some (o1, s') \<and> pending s' = P \<and> answers s' = A)"

lemma yields_bind:
  assumes "yields m s (Ok x) P A"
    and "\<And>s'. pending s' = P \<Longrightarrow> answers s' = A \<Longrightarrow> yields (f x) s' o1 P' A'"
  shows "yields (bind_action m f) s o1 P' A'"
proof -
  from assms(1) obtain s' where m: "m s = Some (Ok x, s')" "pending s' = P" "answers s' = A"
    by (auto simp: yields_def)
  from assms(2)[OF m(2,3)] m(1) show ?thesis by (simp add: yields_def bind_action_def)
qed

lemma yields_bind_Err:
  "yields m s (Err e) P A \<Longrightarrow> yields (bind_action m f) s (Err e) P A"
  by (auto simp: yields_def bind_action_def)

lemma yields_return: "yields (return_action x) s (Ok x) (pending s) (answers s)"
  by (simp add: yields_def return_action_def)

lemma yields_write_all: "yields (lift_io (op_write_all W bs)) s (Ok ()) (pending s) (answers s)"
  using write_live[of bs s] by (auto simp: yields_def lift_io_def)

lemma yields_flush:
  "yields (lift_io (op_flush W)) s (Ok ()) (pending s @ concat (take 1 (answers s))) (drop 1 (answers s))"
  using flush_live[of s] by (auto simp: yields_def lift_io_def)

lemma yields_send_command:
  "yields (send_command W (Some t)) s (Ok ()) (pending s @ concat (take 1 (answers s))) (drop 1 (answers s))"
proof -
  have eq: "send_command W (Some t) = bind_action (lift_io (op_write_all W t)) (\<lambda>_.
     bind_action (lift_io (op_flush W)) (\<lambda>_. return_action ()))"
    by (rule ext) (simp add: send_command_def stream_write_def flip: return_action_def)
  show ?thesis unfolding eq
  proof (rule yields_bind[OF yields_write_all])
    fix s' assume s': "pending s' = pending s" "answers s' = answers s"
    show "yields (bind_action (lift_io (op_flush W)) (\<lambda>_. return_action ())) s' (Ok ())
        (pending s @ concat (take 1 (answers s))) (drop 1 (answers s))"
    proof (rule yields_bind[OF yields_flush])
      fix s'' assume "pending s'' = pending s' @ concat (take 1 (answers s'))"
        "answers s'' = drop 1 (answers s')"
      with s' yields_return[of "()" s''] show "yields (return_action ()) s'' (Ok ())
          (pending s @ concat (take 1 (answers s))) (drop 1 (answers s))" by simp
    qed
  qed
qed

lemma read_response_loop_live:
  assumes "readable r" and "buf @ u = reply_string r" and "u \<noteq> []"
    and "pending s = u @ rest" and "utf8_valid u"
  shows "\<exists>s'. read_response_loop N W buf s = Some (reply_result r, s') \<and>
    pending s' = rest \<and> answers s' = answers s"
  using assms
proof (induction "length u" arbitrary: u buf s rule: less_induct)
  case less
  let ?l = "take_line u"
  have wf: "wf_response r" using less.prems(1) by (simp add: readable_def)
  obtain x where x: "reply_string r = x @ crlf" using reply_string_LF by blast
  have "last u = last (reply_string r)" using less.prems(2,3) by (metis last_appendR)
  then have "last u = LF" using x by simp
  then have "LF \<in> set u" using less.prems(3) last_in_set by metis
  then have l: "take_line (pending s) = ?l" using less.prems(4) take_line_whole by simp
  have v: "utf8_valid ?l" "utf8_valid (drop (length ?l) u)"
    using utf8_valid_take_line less.prems(5) by blast+
  have split: "u = ?l @ drop (length ?l) u" by (simp only: take_line_drop)
  have pos: "length ?l \<noteq> 0" using less.prems(3) by (cases u) auto
  obtain s1 where rd: "op_read_line W buf s = (Inr (length ?l), buf @ ?l, s1)"
    and s1: "pending s1 = drop (length ?l) u @ rest" "answers s1 = answers s"
    using read_live[of s buf] v(1) l less.prems(4) split by (metis append_assoc append_eq_conv_conj)
  show ?case
  proof (cases "drop (length ?l) u = []")
    case True
    then have "buf @ ?l = reply_string r" using split less.prems(2) by simp
    then have "parse_response N (buf @ ?l) = Inr ([], r)" using parse_response_Inr_iff wf by simp
    then show ?thesis
      using rd pos s1 True
      by (subst read_response_loop.simps) (simp add: reply_result_def)
  next
    case False
    have eq: "reply_string r = (buf @ ?l) @ drop (length ?l) u" using split less.prems(2) by simp
    then have "strict_prefix (buf @ ?l) (reply_string r)" using False by (metis strict_prefixI' prefixI append_self_conv strict_prefixI)
    then have "\<exists>n. parse_response N (buf @ ?l) = Inl (Incomplete n)"
      using wf unfolding reply_string_def
      by (intro parse_response_more) (auto simp: clean_line_def wf_response_def dest: in_set_butlastD)
    then obtain n where "parse_response N (buf @ ?l) = Inl (Incomplete n)" by blast
    then have "read_response_loop N W buf s = read_response_loop N W (buf @ ?l) s1"
      using rd pos by (subst read_response_loop.simps) simp
    moreover have "length (drop (length ?l) u) < length u" using pos less.prems(3) by simp
    ultimately show ?thesis
      using less.hyps[of "drop (length ?l) u" "buf @ ?l" s1] less.prems(1) eq False s1 v(2) by simp
  qed
qed

lemma yields_read_response:
  "readable r \<Longrightarrow> pending s = reply_string r @ rest \<Longrightarrow>
   yields (read_response N W) s (reply_result r) rest (answers s)"
  using read_response_loop_live[of r "[]" "reply_string r" s rest] reply_string_LF[of r]
  by (auto simp: yields_def read_response_def readable_def)

lemma yields_command:
  assumes "readable r" and "pending s @ concat (take 1 (answers s)) = reply_string r @ rest"
  shows "yields (command N W (Some t)) s (reply_result r) rest (drop 1 (answers s))"
  unfolding command_def
proof (rule yields_bind[OF yields_send_command])
  fix s' assume "pending s' = pending s @ concat (take 1 (answers s))" "answers s' = drop 1 (answers s)"
  with yields_read_response[of r s' rest] assms
  show "yields (read_response N W) s' (reply_result r) rest (drop 1 (answers s))" by simp
qed

lemma yields_encode:
  "yields (encode_action W client_codec_new m) s (Ok ()) (pending s) (answers s)"
proof -
  obtain r k s' where e: "encode W client_codec_new m s = (r, k, s')" by (metis surj_pair)
  have kept: "op_write_all W bs t = (w, t') \<Longrightarrow> pending t = P \<and> answers t = A \<Longrightarrow>
      pending t' = P \<and> answers t' = A" for bs t w t' P A
    using write_live[of bs t] by auto
  have live: "fst (op_write_all W bs t) = Inr ()" for bs t
    using write_live[of bs t] by auto
  have "pending s' = pending s \<and> answers s' = answers s"
    using encode_keeps[of W "\<lambda>x. pending x = pending s \<and> answers x = answers s", OF _ e] kept by blast
  moreover have "r = Some (Inr ())"
  proof (cases r)
    case None
    have "codec_ok client_codec_new" by (simp add: codec_ok_def client_codec_new_def)
    with encode_no_panic e None show ?thesis by blast
  next
    case (Some q)
    with e encode_no_error[of W, OF live] show ?thesis by (cases q) auto
  qed
  ultimately show ?thesis using e by (simp add: yields_def encode_action_def lift_io_def)
qed

lemma yields_message:
  assumes "read_to_end R (message_poll_read R) msg = Some (Inr bs)" and "readable r"
    and "pending s @ concat (take 1 (answers s)) = reply_string r @ rest"
  shows "yields (stream_message N W R msg) s (reply_result r) rest (drop 1 (answers s))"
proof -
  have eq: "stream_message N W R msg =
     bind_action (encode_action W client_codec_new bs) (\<lambda>_. bind_action
       (bind_action (lift_io (op_write_all W (crlf @ ''.'' @ crlf))) (\<lambda>_.
          bind_action (lift_io (op_flush W)) (\<lambda>_. return_action ())))
       (\<lambda>_. read_response N W))"
    by (simp add: stream_message_def assms(1) lift_read_Inr bind_action_assoc)
  have send: "bind_action (lift_io (op_write_all W bs)) (\<lambda>_.
      bind_action (lift_io (op_flush W)) (\<lambda>_. return_action ())) = send_command W (Some bs)" for bs
    by (rule ext) (simp add: send_command_def stream_write_def flip: return_action_def)
  show ?thesis unfolding eq send
  proof (rule yields_bind[OF yields_encode])
    fix s' assume "pending s' = pending s" "answers s' = answers s"
    with yields_command[of r s' rest "crlf @ ''.'' @ crlf"] assms(2,3)
    show "yields (bind_action (send_command W (Some (crlf @ ''.'' @ crlf))) (\<lambda>_. read_response N W)) s'
        (reply_result r) rest (drop 1 (answers s))" by (simp add: command_def)
  qed
qed

end

text \<open>The scripted connection with the reference parser is such a session.\<close>

interpretation script_session: live_session script_ops written got nom_ref inbox reactions
  by unfold_locales

section \<open>A scripted reply\<close>

definition accepted :: response where
  "accepted = \<lparr>code = code_new PositiveCompletion MailSystem Zero, message = [''OK'']\<rparr>"

definition bytes_message :: "byte list \<Rightarrow> byte list message" where
  "bytes_message m = Bytes \<lparr>cursor_data = m, cursor_pos = 0\<rparr>"

lemma accepted_reply:
  "reply_string accepted = ''250 OK'' @ crlf" "readable accepted" "is_positive accepted"
  "positive_reply accepted"
proof -
  show 1: "reply_string accepted = ''250 OK'' @ crlf"
    by (simp add: accepted_def code_new_def reply_string_def raw_reply_def
      reply_text_def code_fmt_def severity_fmt_def category_fmt_def detail_fmt_def digit_fmt_simps)
  have wf: "wf_response accepted" by (simp add: wf_response_def accepted_def)
  then show "readable accepted"
    unfolding readable_def 1 by (intro conjI utf8_valid_ascii) (simp_all add: is_ascii_def)
  show "is_positive accepted" by (simp add: accepted_def code_new_def is_positive_def)
  with wf show "positive_reply accepted" by (simp add: positive_reply_def)
qed

lemma bytes_message_read: "read_to_end read_ref (message_poll_read read_ref) (bytes_message m) = Some (Inr m)"
  using ref_read.read_to_end_bytes[of _ m]
  by (simp add: sendable_email_new_def bytes_message_def)

lemma scripted_message:
  "\<exists>s'. stream_message nom_ref script_ops read_ref (bytes_message m) (connect [] [reply_string accepted]) =
     Some (Ok accepted, s')"
  using script_session.yields_message[OF bytes_message_read accepted_reply(2),
      of "connect [] [reply_string accepted]" "[]" m]
  by (auto simp: script_session.yields_def connect_def reply_result_def accepted_reply(3))

section \<open>Properties\<close>

text \<open>
  C13: \<open>read_response\<close> writes nothing, never panics, and when it returns a response it has
  consumed exactly the text of that response, a positive reply; an error is a negative reply it has
  consumed exactly, an I/O error or a parse error.
\<close>

theorem read_response_outcomes:
  assumes "smtp_session W sent received N" and "read_response N W s = Some (o1, s')"
  shows "sent s' = sent s \<and> prefix (received s) (received s') \<and> (case o1 of
      Panic \<Rightarrow> False
    | Ok r \<Rightarrow> wf_response r \<and> is_positive r \<and> received s' = received s @ reply_string r
    | Err e \<Rightarrow>
        (\<exists>r. wf_response r \<and> \<not> is_positive r \<and> e = error_from_response r
             \<and> received s' = received s @ reply_string r)
        \<or> (\<exists>x. e = Io x) \<or> (\<exists>k. e = Parsing k))"
  using smtp_session.read_response_result[OF assms] by (simp add: reply_outcome_def)

theorem read_response_outcomes_witness:
  "\<exists>s'. read_response nom_ref script_ops (connect (reply_string accepted @ ''220'') []) = Some (Ok accepted, s') \<and>
     got s' = reply_string accepted"
proof -
  obtain s' where s': "read_response nom_ref script_ops (connect (reply_string accepted @ ''220'') []) =
      Some (Ok accepted, s')"
    using script_session.yields_read_response[OF accepted_reply(2), of "connect (reply_string accepted @ ''220'') []" "''220''"]
    by (auto simp: script_session.yields_def connect_def reply_result_def accepted_reply(3))
  from read_response_outcomes[OF script_session.smtp_session_axioms this] s'
  show ?thesis by (simp add: connect_def)
qed

text \<open>
  C14: \<open>read_response\<close> returns as soon as a whole reply is there, however many lines it has and
  whatever follows it, and leaves what follows unread: a positive reply as the response, a negative
  one as the error made from it.
\<close>

theorem read_response_returns:
  assumes "live_session W sent received N pending answers" and "wf_response r"
    and "utf8_valid (reply_string r)" and "pending s = reply_string r @ rest"
  shows "\<exists>s'. read_response N W s =
      Some (if is_positive r then Ok r else Err (error_from_response r), s') \<and> pending s' = rest"
  using live_session.yields_read_response[OF assms(1) _ assms(4)] assms(2,3)
  unfolding live_session.yields_def[OF assms(1)] readable_def reply_result_def by blast

theorem read_response_returns_witness:
  "\<exists>s'. read_response nom_ref script_ops (connect (reply_string accepted @ ''220'') []) =
      Some (if is_positive accepted then Ok accepted else Err (error_from_response accepted), s') \<and>
    inbox s' = ''220''"
  by (rule read_response_returns[OF script_session.live_session_axioms])
    (use accepted_reply(2) in \<open>simp_all add: readable_def connect_def\<close>)

text \<open>
  C6: a body that is not empty, without a CR CR and without a dot at its start arrives intact: a receiver of RFC 5321
  takes the message with a CRLF added out of what \<open>message\<close> has sent, and finds what follows.
\<close>

theorem message_transparent:
  assumes "smtp_session W sent received N"
    and "read_to_end R (message_poll_read R) msg = Some (Inr m)" and "m \<noteq> []"
    and "\<not> has_double_cr m" and "hd m \<noteq> DOT"
    and "stream_message N W R msg s = Some (Ok r, s')"
  shows "\<exists>bs. sent s' = sent s @ bs \<and> receive_data (bs @ rest) = Some (m @ crlf, rest)"
proof -
  have "receive_data (body_text m @ rest) = Some (m @ crlf, rest)"
    using codec_body.transparent[of m rest] assms(3-5) by (simp add: plain_message_def body_text_def)
  with smtp_session.message_sent[OF assms(1,2,6)] show ?thesis by blast
qed

theorem message_transparent_witness:
  "\<exists>s' bs. stream_message nom_ref script_ops read_ref (bytes_message (''a'' @ crlf @ ''.b''))
      (connect [] [reply_string accepted]) = Some (Ok accepted, s') \<and>
    written s' = bs \<and> receive_data (bs @ ''QUIT'') = Some (''a'' @ crlf @ ''.b'' @ crlf, ''QUIT'')"
proof -
  obtain s' where s': "stream_message nom_ref script_ops read_ref (bytes_message (''a'' @ crlf @ ''.b''))
      (connect [] [reply_string accepted]) = Some (Ok accepted, s')" using scripted_message by blast
  from message_transparent[OF script_session.smtp_session_axioms bytes_message_read _ _ _ this, of "''QUIT''"] s'
  show ?thesis by (auto simp: connect_def)
qed

text \<open>
  C30: a message that begins with a line of one dot is cut off there: the receiver takes an empty
  message, and the rest of the message is read as what the client sends after it.
\<close>

theorem message_leading_dot:
  assumes "smtp_session W sent received N"
    and "read_to_end R (message_poll_read R) msg = Some (Inr (DOT # CR # LF # m))"
    and "stream_message N W R msg s = Some (Ok r, s')"
  shows "\<exists>bs. sent s' = sent s @ bs \<and> receive_data bs = Some ([], stuff 2 m @ data_end)"
proof -
  have "body_text (DOT # CR # LF # m) = stuff 0 (DOT # CR # LF # m) @ data_end"
    by (simp add: body_text_def)
  with smtp_session.message_sent[OF assms] receive_leading_dot[of m data_end] show ?thesis by metis
qed

theorem message_leading_dot_witness:
  "\<exists>s'. stream_message nom_ref script_ops read_ref (bytes_message (DOT # CR # LF # ''QUIT''))
      (connect [] [reply_string accepted]) = Some (Ok accepted, s') \<and>
    receive_data (written s') = Some ([], ''QUIT'' @ data_end)"
proof -
  obtain s' where s': "stream_message nom_ref script_ops read_ref (bytes_message (DOT # CR # LF # ''QUIT''))
      (connect [] [reply_string accepted]) = Some (Ok accepted, s')" using scripted_message by blast
  from message_leading_dot[OF script_session.smtp_session_axioms bytes_message_read this] s'
  show ?thesis by (auto simp: connect_def esc_def)
qed

text \<open>
  C31: so is a message with a line of one dot after CR CR LF: the counter takes the second CR for an
  ordinary byte and does not see the end of the line, so the dot is not doubled. What stands before
  holds no CR and does not begin with a dot.
\<close>

theorem message_double_cr:
  assumes "smtp_session W sent received N"
    and "read_to_end R (message_poll_read R) msg = Some (Inr (x @ CR # CR # LF # DOT # CR # LF # m))"
    and "CR \<notin> set x" and "x = [] \<or> hd x \<noteq> DOT"
    and "stream_message N W R msg s = Some (Ok r, s')"
  shows "\<exists>bs. sent s' = sent s @ bs \<and> receive_data bs = Some (x @ [CR] @ crlf, stuff 2 m @ data_end)"
proof -
  let ?m = "x @ CR # CR # LF # DOT # CR # LF # m"
  have "body_text ?m = stuff 0 ?m @ data_end" by (simp add: body_text_def del: stuff.simps)
  with smtp_session.message_sent[OF assms(1,2,5)] receive_double_cr[OF assms(3,4), of m data_end]
  show ?thesis by metis
qed

theorem message_double_cr_witness:
  "\<exists>s'. stream_message nom_ref script_ops read_ref (bytes_message (''a'' @ CR # CR # LF # DOT # CR # LF # ''QUIT''))
      (connect [] [reply_string accepted]) = Some (Ok accepted, s') \<and>
    receive_data (written s') = Some (''a'' @ [CR] @ crlf, ''QUIT'' @ data_end)"
proof -
  obtain s' where s': "stream_message nom_ref script_ops read_ref
      (bytes_message (''a'' @ CR # CR # LF # DOT # CR # LF # ''QUIT''))
      (connect [] [reply_string accepted]) = Some (Ok accepted, s')" using scripted_message by blast
  from message_double_cr[OF script_session.smtp_session_axioms bytes_message_read _ _ this] s'
  show ?thesis by (auto simp: connect_def esc_def)
qed

text \<open>
  C7: refinement of the standard's transparency procedure: for such a body (not empty), what \<open>message\<close> puts
  on the wire is what RFC 5321, section 4.5.2 prescribes line by line, a dot in front of every line
  that begins with one, followed by the mark that ends the data.
\<close>

theorem message_refines_rfc:
  assumes "smtp_session W sent received N"
    and "read_to_end R (message_poll_read R) msg = Some (Inr m)" and "m \<noteq> []"
    and "\<not> has_double_cr m" and "hd m \<noteq> DOT"
    and "stream_message N W R msg s = Some (Ok r, s')"
  shows "sent s' = sent s @ rfc_stuff m @ crlf @ ''.'' @ crlf"
  using smtp_session.message_sent[OF assms(1,2,6)] stuff_rfc[of m 0] assms(3-5)
  by (simp add: body_text_def data_end_def)

theorem message_refines_rfc_witness:
  "\<exists>s'. stream_message nom_ref script_ops read_ref (bytes_message (''a'' @ crlf @ ''.b''))
      (connect [] [reply_string accepted]) = Some (Ok accepted, s') \<and>
    written s' = rfc_stuff (''a'' @ crlf @ ''.b'') @ crlf @ ''.'' @ crlf"
proof -
  obtain s' where s': "stream_message nom_ref script_ops read_ref (bytes_message (''a'' @ crlf @ ''.b''))
      (connect [] [reply_string accepted]) = Some (Ok accepted, s')" using scripted_message by blast
  from message_refines_rfc[OF script_session.smtp_session_axioms bytes_message_read _ _ _ this] s'
  show ?thesis by (auto simp: connect_def)
qed

end
