(* ===== verification/Smtp_Client.thy ===== *)
theory Smtp_Client
  imports Smtp_Stream
begin

text \<open>
  \<open>src/smtp_client.rs\<close>: the configuration, the transport, and its operations. A transport
  holds the server's and the client's information, which no operation changes, and the stream; an
  operation that only uses the stream is an action on it, lifted by \<open>on_stream\<close>. The counter of
  sent commands is an \<open>i32\<close>. What an overflow does is set by the build: \<open>oc\<close> says whether the
  overflow checks are on (as in a debug build), and then the addition panics; otherwise it wraps
  (as in a release build), and the loop over a negative count reads nothing.
\<close>

section \<open>Configuration\<close>

record smtp_client =
  client_hello_name :: client_id
  client_smtp_utf8 :: bool
  expect_greeting :: bool
  client_pipelining :: bool

definition smtp_client_new :: smtp_client where
  "smtp_client_new =
     \<lparr>client_hello_name = client_id_default, client_smtp_utf8 = False, expect_greeting = True,
      client_pipelining = True\<rparr>"

definition smtp_client_default :: smtp_client where
  "smtp_client_default = smtp_client_new"

definition smtp_utf8 :: "smtp_client \<Rightarrow> bool \<Rightarrow> smtp_client" where
  "smtp_utf8 c enabled = c\<lparr>client_smtp_utf8 := enabled\<rparr>"

definition pipelining :: "smtp_client \<Rightarrow> bool \<Rightarrow> smtp_client" where
  "pipelining c enabled = c\<lparr>client_pipelining := enabled\<rparr>"

definition hello_name :: "smtp_client \<Rightarrow> client_id \<Rightarrow> smtp_client" where
  "hello_name c name = c\<lparr>client_hello_name := name\<rparr>"

definition without_greeting :: "smtp_client \<Rightarrow> smtp_client" where
  "without_greeting c = c\<lparr>expect_greeting := False\<rparr>"

section \<open>The transport\<close>

record 's transport =
  transport_server :: server_info
  transport_client :: smtp_client
  transport_stream :: 's

definition on_stream :: "('s, 'a) action \<Rightarrow> ('s transport, 'a) action" where
  "on_stream m t = (case m (transport_stream t) of
      None \<Rightarrow> None
    | Some (o1, s) \<Rightarrow> Some (o1, t\<lparr>transport_stream := s\<rparr>))"

definition fail_action :: "error \<Rightarrow> ('s, 'a) action" where
  "fail_action e s = Some (Err e, s)"

definition read_greeting :: "nom_lib \<Rightarrow> 's stream_ops \<Rightarrow> smtp_client \<Rightarrow> ('s, unit) action" where
  "read_greeting N W builder =
     (if expect_greeting builder
      then bind_action (read_response N W) (\<lambda>greeting. return_action ())
      else return_action ())"

definition transport_new ::
  "nom_lib \<Rightarrow> 's stream_ops \<Rightarrow> smtp_client \<Rightarrow> ('s, 's transport) action" where
  "transport_new N W builder stream =
     bind_action (read_greeting N W builder) (\<lambda>_.
     bind_action (ehlo N W (client_id_new (client_id_fmt (client_hello_name builder)))) (\<lambda>ehlo_response.
     bind_action (lift_result (from_response ehlo_response)) (\<lambda>info.
     (\<lambda>stream. return_action
        \<lparr>transport_server = info, transport_client = builder, transport_stream = stream\<rparr> stream))))
     (stream_new stream)"

definition transport_supports_feature :: "'s transport \<Rightarrow> extension \<Rightarrow> bool" where
  "transport_supports_feature t keyword = supports_feature (transport_server t) keyword"

definition quit :: "nom_lib \<Rightarrow> 's stream_ops \<Rightarrow> ('s transport, unit) action" where
  "quit N W = on_stream
     (bind_action (command N W (Some (quit_fmt QuitCommand))) (\<lambda>_. return_action ()))"

text \<open>The result is the inner stream, which the caller upgrades to TLS.\<close>

definition starttls :: "nom_lib \<Rightarrow> 's stream_ops \<Rightarrow> ('s transport, 's) action" where
  "starttls N W t =
     (if \<not> transport_supports_feature t StartTls
      then fail_action (error_from_str ''server does not support STARTTLS'') t
      else
        bind_action (on_stream (command N W (Some (starttls_fmt StarttlsCommand))))
          (\<lambda>_ t. return_action (into_inner (transport_stream t)) t) t)"

section \<open>Authentication\<close>

text \<open>The \<open>while\<close> loop, by its counter, with the counter and the response it leaves.\<close>

fun auth_loop :: "nom_lib \<Rightarrow> 's stream_ops \<Rightarrow> base64_lib \<Rightarrow> mechanism \<Rightarrow> credentials \<Rightarrow> nat
    \<Rightarrow> response \<Rightarrow> ('s, nat \<times> response) action" where
  "auth_loop N W B m c 0 response = return_action (0, response)"
| "auth_loop N W B m c (Suc challenges) response =
     (if has_code response 334 then
        bind_action (lift_result (auth_new_from_response B m c response)) (\<lambda>cmd.
        bind_action (command N W (Some (auth_fmt B cmd))) (\<lambda>response.
        auth_loop N W B m c challenges response))
      else return_action (Suc challenges, response))"

definition auth :: "nom_lib \<Rightarrow> 's stream_ops \<Rightarrow> base64_lib \<Rightarrow> mechanism \<Rightarrow> credentials
    \<Rightarrow> ('s transport, response) action" where
  "auth N W B m c = on_stream
     (bind_action (lift_result (auth_new m c None)) (\<lambda>cmd.
      bind_action (command N W (Some (auth_fmt B cmd))) (\<lambda>response.
      bind_action (auth_loop N W B m c 10 response) (\<lambda>(challenges, response).
      if challenges = 0
      then fail_action (ResponseParsing ''Unexpected number of challenges'')
      else return_action response))))"

definition try_login :: "nom_lib \<Rightarrow> 's stream_ops \<Rightarrow> base64_lib \<Rightarrow> credentials \<Rightarrow> mechanism list
    \<Rightarrow> ('s transport, unit) action" where
  "try_login N W B c accepted_mechanisms t =
     (case find (\<lambda>m. supports_auth_mechanism (transport_server t) m) accepted_mechanisms of
        Some m \<Rightarrow> bind_action (auth N W B m c) (\<lambda>_. return_action ()) t
      | None \<Rightarrow> return_action () t)"

section \<open>Sending\<close>

definition i32_succ :: "bool \<Rightarrow> 32 word \<Rightarrow> ('s, 32 word) action" where
  "i32_succ oc n s = (if oc \<and> n = 0x7FFFFFFF then Some (Panic, s) else Some (Ok (n + 1), s))"

text \<open>The number of rounds of \<open>for _ in 0..n\<close>.\<close>

definition i32_rounds :: "32 word \<Rightarrow> nat" where
  "i32_rounds n = nat (sint n)"

definition mail_options :: "'s transport \<Rightarrow> mail_parameter list" where
  "mail_options t =
     (if transport_supports_feature t EightBitMime then [Body BodyEightBitMime] else []) @
     (if transport_supports_feature t SmtpUtfEight \<and> client_smtp_utf8 (transport_client t)
      then [SmtpUtfEightParam] else [])"

definition use_pipelining :: "'s transport \<Rightarrow> bool" where
  "use_pipelining t \<longleftrightarrow>
     transport_supports_feature t Pipelining \<and> client_pipelining (transport_client t)"

text \<open>The loops over the recipients in the two modes, and the loop over the replies.\<close>

fun send_recipients :: "bool \<Rightarrow> 's stream_ops \<Rightarrow> email_address list \<Rightarrow> 32 word \<Rightarrow> ('s, 32 word) action" where
  "send_recipients oc W [] sent_commands = return_action sent_commands"
| "send_recipients oc W (to_address # rest) sent_commands =
     bind_action (send_command W (rcpt_fmt (rcpt_new to_address []))) (\<lambda>_.
     bind_action (i32_succ oc sent_commands) (\<lambda>sent_commands.
     send_recipients oc W rest sent_commands))"

fun read_responses :: "nom_lib \<Rightarrow> 's stream_ops \<Rightarrow> nat \<Rightarrow> ('s, unit) action" where
  "read_responses N W 0 = return_action ()"
| "read_responses N W (Suc n) = bind_action (read_response N W) (\<lambda>_. read_responses N W n)"

fun command_recipients :: "nom_lib \<Rightarrow> 's stream_ops \<Rightarrow> email_address list \<Rightarrow> ('s, unit) action" where
  "command_recipients N W [] = return_action ()"
| "command_recipients N W (to_address # rest) =
     bind_action (command N W (rcpt_fmt (rcpt_new to_address []))) (\<lambda>_.
     command_recipients N W rest)"

definition send_pipelined :: "bool \<Rightarrow> nom_lib \<Rightarrow> 's stream_ops \<Rightarrow> mail_parameter list \<Rightarrow> envelope
    \<Rightarrow> ('s, unit) action" where
  "send_pipelined oc N W opts e =
     bind_action (send_command W (mail_fmt (mail_new (envelope_from e) opts))) (\<lambda>_.
     bind_action (send_recipients oc W (envelope_to e) 1) (\<lambda>sent_commands.
     bind_action (send_command W (Some (data_fmt DataCommand))) (\<lambda>_.
     bind_action (i32_succ oc sent_commands) (\<lambda>sent_commands.
     read_responses N W (i32_rounds sent_commands)))))"

definition send_sequential :: "nom_lib \<Rightarrow> 's stream_ops \<Rightarrow> mail_parameter list \<Rightarrow> envelope
    \<Rightarrow> ('s, unit) action" where
  "send_sequential N W opts e =
     bind_action (command N W (mail_fmt (mail_new (envelope_from e) opts))) (\<lambda>_.
     bind_action (command_recipients N W (envelope_to e)) (\<lambda>_.
     bind_action (command N W (Some (data_fmt DataCommand))) (\<lambda>_.
     return_action ())))"

definition send :: "bool \<Rightarrow> nom_lib \<Rightarrow> 's stream_ops \<Rightarrow> 'r read_lib \<Rightarrow> 'r sendable_email
    \<Rightarrow> ('s transport, response) action" where
  "send oc N W R email t =
     bind_action
       (if use_pipelining t
        then on_stream (send_pipelined oc N W (mail_options t) (email_envelope email))
        else on_stream (send_sequential N W (mail_options t) (email_envelope email)))
       (\<lambda>_. on_stream (stream_message N W R (email_message email))) t"

section \<open>The lines of a transaction\<close>

definition lines_text :: "string list \<Rightarrow> string" where
  "lines_text ls = concat (map (\<lambda>l. l @ crlf) ls)"

definition rcpt_line :: "email_address \<Rightarrow> string" where
  "rcpt_line a = ''RCPT TO:<'' @ email_address_fmt a @ ''>''"

definition envelope_lines :: "mail_parameter list \<Rightarrow> envelope \<Rightarrow> string list" where
  "envelope_lines opts e =
     mail_line opts (reverse_path e) # map rcpt_line (forward_path e) @ [''DATA'']"

lemma lines_text_simps [simp]:
  "lines_text [] = []" "lines_text (l # ls) = l @ crlf @ lines_text ls"
  "lines_text (ls @ ls') = lines_text ls @ lines_text ls'"
  by (simp_all add: lines_text_def)

lemma mail_new_line: "mail_fmt (mail_new from_addr opts) = Some (mail_line opts from_addr @ crlf)"
  by (simp add: mail_fmt_line mail_new_def)

lemma rcpt_fmt_line: "rcpt_fmt (rcpt_new a []) = Some (rcpt_line a @ crlf)"
  by (simp add: rcpt_fmt_def rcpt_new_def rcpt_line_def)

lemma data_fmt_line: "data_fmt DataCommand = ''DATA'' @ crlf"
  by (simp add: data_fmt_def)

text \<open>The peer who splits at the CRLFs sees the lines, when the addresses are well formed.\<close>

lemma mail_options_known: "OtherParam k v \<notin> set (mail_options t)"
  by (auto simp: mail_options_def split: if_splits)

lemma envelope_lines_one_line:
  assumes "envelope_ok e"
  shows "\<forall>l \<in> set (envelope_lines (mail_options t) e). one_line l"
proof -
  have "one_line (mail_line (mail_options t) (reverse_path e))"
    using assms mail_line_crlf(2)[of "reverse_path e" "mail_options t"] mail_options_known
    by (auto simp: envelope_ok_def)
  moreover have "one_line (rcpt_line a)" if "a \<in> set (forward_path e)" for a
    using assms that by (auto simp: rcpt_line_def envelope_ok_def intro: email_one_line)
  ultimately show ?thesis by (auto simp: envelope_lines_def)
qed

lemma crlf_lines_text:
  "\<forall>l \<in> set ls. one_line l \<Longrightarrow> crlf_lines (lines_text ls @ r) = (ls @ fst (crlf_lines r), snd (crlf_lines r))"
proof (induction ls)
  case (Cons l ls)
  then show ?case by (simp add: crlf_lines_line one_line_no_crlf)
qed simp

section \<open>Sequences of commands\<close>

text \<open>The two ways to send the lines of a transaction, and what the operations are in their terms.\<close>

fun run_commands :: "nom_lib \<Rightarrow> 's stream_ops \<Rightarrow> string list \<Rightarrow> ('s, unit) action" where
  "run_commands N W [] = return_action ()"
| "run_commands N W (l # ls) =
     bind_action (command N W (Some (l @ crlf))) (\<lambda>_. run_commands N W ls)"

fun write_lines :: "'s stream_ops \<Rightarrow> string list \<Rightarrow> ('s, unit) action" where
  "write_lines W [] = return_action ()"
| "write_lines W (l # ls) = bind_action (send_command W (Some (l @ crlf))) (\<lambda>_. write_lines W ls)"

lemma run_commands_append:
  "run_commands N W (ls @ ls') = bind_action (run_commands N W ls) (\<lambda>_. run_commands N W ls')"
  by (induction ls) (simp_all add: bind_action_assoc)

lemma write_lines_append:
  "write_lines W (ls @ ls') = bind_action (write_lines W ls) (\<lambda>_. write_lines W ls')"
  by (induction ls) (simp_all add: bind_action_assoc)

lemma command_recipients_run: "command_recipients N W as = run_commands N W (map rcpt_line as)"
  by (induction as) (simp_all add: rcpt_fmt_line)

lemma send_sequential_run: "send_sequential N W opts e = run_commands N W (envelope_lines opts e)"
  by (simp add: send_sequential_def envelope_lines_def run_commands_append command_recipients_run
      mail_new_line data_fmt_line envelope_from_def envelope_to_def)

lemma i32_succ_return:
  assumes "Suc n < 2 ^ 31"
  shows "i32_succ oc (word_of_nat n) = return_action (word_of_nat (Suc n))"
proof -
  have "word_of_nat n \<noteq> (0x7FFFFFFF :: 32 word)"
  proof
    assume "word_of_nat n = (0x7FFFFFFF :: 32 word)"
    then have "unat (word_of_nat n :: 32 word) = 0x7FFFFFFF" by simp
    with assms show False by (simp add: unat_of_nat)
  qed
  then show ?thesis by (intro ext) (simp add: i32_succ_def return_action_def)
qed

lemma i32_rounds_of_nat: "n < 2 ^ 31 \<Longrightarrow> i32_rounds (word_of_nat n) = n"
  by (simp add: i32_rounds_def signed_of_nat signed_take_bit_int_eq_self)

lemma send_recipients_write:
  "n + length as < 2 ^ 31 \<Longrightarrow> send_recipients oc W as (word_of_nat n) =
     bind_action (write_lines W (map rcpt_line as)) (\<lambda>_. return_action (word_of_nat (n + length as)))"
proof (induction as arbitrary: n)
  case (Cons a as)
  then have "i32_succ oc (word_of_nat n) = (return_action (word_of_nat (Suc n)) :: 'a \<Rightarrow> _)"
    by (intro i32_succ_return) simp
  with Cons.prems Cons.IH[of "Suc n"] show ?case
    by (simp add: rcpt_fmt_line bind_action_assoc)
qed simp

text \<open>The recipients the counter of \<open>send\<close> has room for.\<close>

definition countable_envelope :: "envelope \<Rightarrow> bool" where
  "countable_envelope e \<longleftrightarrow> length (forward_path e) + 2 < 2 ^ 31"

lemma length_envelope_lines [simp]: "length (envelope_lines opts e) = length (forward_path e) + 2"
  by (simp add: envelope_lines_def)

lemma send_pipelined_write:
  assumes "countable_envelope e"
  shows "send_pipelined oc N W opts e =
    bind_action (write_lines W (envelope_lines opts e)) (\<lambda>_.
    read_responses N W (length (envelope_lines opts e)))"
proof -
  have n: "1 + length (forward_path e) < 2 ^ 31" using assms by (simp add: countable_envelope_def)
  have succ: "i32_succ oc (word_of_nat (1 + length (forward_path e))) =
      return_action (word_of_nat (length (forward_path e) + 2))"
    using assms i32_succ_return[of "1 + length (forward_path e)"] by (simp add: countable_envelope_def)
  have recipients: "send_recipients oc W (forward_path e) 1 = bind_action
      (write_lines W (map rcpt_line (forward_path e)))
      (\<lambda>_. return_action (word_of_nat (1 + length (forward_path e))))"
    using send_recipients_write[OF n, of oc W] by (simp only: of_nat_1)
  have rounds: "i32_rounds (word_of_nat (length (forward_path e) + 2)) = length (forward_path e) + 2"
    using assms by (intro i32_rounds_of_nat) (simp add: countable_envelope_def)
  show ?thesis
    unfolding send_pipelined_def envelope_to_def recipients
    by (simp only: bind_action_assoc bind_return succ rounds)
      (simp add: envelope_lines_def write_lines_append mail_new_line data_fmt_line envelope_from_def
        bind_action_assoc)
qed

text \<open>
  Beyond that room the two builds differ: with the checks, adding one to the largest count panics;
  without them the count becomes negative, and \<open>send\<close> reads no reply at all.
\<close>

lemma i32_succ_last:
  "i32_succ True 0x7FFFFFFF s = Some (Panic, s)"
  "i32_succ False 0x7FFFFFFF s = Some (Ok (word_of_nat (2 ^ 31)), s)"
  by (simp_all add: i32_succ_def)

lemma sint_of_nat_negative:
  assumes "2 ^ 31 \<le> n" and "n < 2 ^ 32"
  shows "sint (word_of_nat n :: 32 word) = int n - 2 ^ 32"
proof -
  have n: "2 ^ 31 \<le> int n" "int n < 2 ^ 32" using assms by simp_all
  have "sint (word_of_nat n :: 32 word) = (int n + 2 ^ 31) mod 2 ^ 32 - 2 ^ 31"
    by (simp add: signed_of_nat signed_take_bit_eq_take_bit_shift take_bit_eq_mod)
  also have "int n + 2 ^ 31 = (int n - 2 ^ 31) + 2 ^ 32" by simp
  also have "\<dots> mod 2 ^ 32 = (int n - 2 ^ 31) mod 2 ^ 32" by (rule mod_add_self2)
  also have "\<dots> = int n - 2 ^ 31" using n by (intro mod_pos_pos_trivial) simp_all
  finally show ?thesis by simp
qed

lemma i32_rounds_negative: "2 ^ 31 \<le> n \<Longrightarrow> n < 2 ^ 32 \<Longrightarrow> i32_rounds (word_of_nat n) = 0"
  by (simp add: i32_rounds_def sint_of_nat_negative)

lemma send_recipients_wrap:
  "send_recipients False W as (word_of_nat n) =
     bind_action (write_lines W (map rcpt_line as)) (\<lambda>_. return_action (word_of_nat (n + length as)))"
proof (induction as arbitrary: n)
  case (Cons a as)
  have "i32_succ False (word_of_nat n) = (return_action (word_of_nat (Suc n)) :: 'a \<Rightarrow> _)"
    by (rule ext) (simp add: i32_succ_def return_action_def)
  with Cons.IH[of "Suc n"] show ?case by (simp add: rcpt_fmt_line bind_action_assoc)
qed simp

lemma send_pipelined_wrap:
  assumes "2 ^ 31 \<le> length (forward_path e) + 2" and "length (forward_path e) + 2 < 2 ^ 32"
  shows "send_pipelined False N W opts e = write_lines W (envelope_lines opts e)"
proof -
  have recipients: "send_recipients False W (forward_path e) 1 = bind_action
      (write_lines W (map rcpt_line (forward_path e)))
      (\<lambda>_. return_action (word_of_nat (1 + length (forward_path e))))"
    using send_recipients_wrap[of W "forward_path e" 1] by (simp only: of_nat_1)
  have succ: "i32_succ False (word_of_nat (1 + length (forward_path e))) =
      return_action (word_of_nat (length (forward_path e) + 2))"
    by (rule ext) (simp add: i32_succ_def return_action_def algebra_simps)
  have rounds: "i32_rounds (word_of_nat (length (forward_path e) + 2)) = 0"
    using i32_rounds_negative[OF assms] .
  have unit: "bind_action m (\<lambda>_. return_action ()) = m" for m :: "('s, unit) action"
    using bind_return(2)[of m] by (simp del: bind_return)
  show ?thesis
    unfolding send_pipelined_def envelope_to_def recipients
    by (simp only: bind_action_assoc bind_return succ rounds read_responses.simps)
      (simp add: envelope_lines_def write_lines_append mail_new_line data_fmt_line envelope_from_def
        bind_action_assoc unit)
qed

lemma on_stream_Some:
  "on_stream m t = Some (o1, t') \<longleftrightarrow>
     (\<exists>s'. m (transport_stream t) = Some (o1, s') \<and> t' = t\<lparr>transport_stream := s'\<rparr>)"
  by (auto simp: on_stream_def split: option.splits)

lemma on_stream_bind:
  "on_stream (bind_action m f) = bind_action (on_stream m) (\<lambda>x. on_stream (f x))"
  by (rule ext) (auto simp: on_stream_def bind_action_def split: option.splits outcome.splits)

lemma on_stream_return: "on_stream (return_action x) = return_action x"
  by (rule ext) (simp add: on_stream_def return_action_def)

text \<open>\<open>send\<close> is the transaction and then the body.\<close>

definition send_envelope :: "nom_lib \<Rightarrow> 's stream_ops \<Rightarrow> bool \<Rightarrow> mail_parameter list \<Rightarrow> envelope
    \<Rightarrow> ('s, unit) action" where
  "send_envelope N W pipe opts e =
     (if pipe then bind_action (write_lines W (envelope_lines opts e))
          (\<lambda>_. read_responses N W (length (envelope_lines opts e)))
      else run_commands N W (envelope_lines opts e))"

lemma send_stream:
  assumes "countable_envelope (email_envelope email)"
  shows "send oc N W R email t = on_stream
     (bind_action (send_envelope N W (use_pipelining t) (mail_options t) (email_envelope email))
        (\<lambda>_. stream_message N W R (email_message email))) t"
  using assms
  by (simp add: send_def on_stream_bind send_envelope_def send_pipelined_write send_sequential_run)

section \<open>What the operations exchange\<close>

context smtp_session
begin

lemma exchange_nothing: "exchange (return_action x) [] (replies 0)"
  by (rule exchange_mono[OF exchange_done]) (simp add: no_reply_def replies_def)

lemma exchange_run_commands: "exchange (run_commands N W ls) (lines_text ls) (replies (length ls))"
proof (induction ls)
  case Nil
  show ?case using exchange_nothing by simp
next
  case (Cons l ls)
  have "exchange (run_commands N W (l # ls)) ((l @ crlf) @ lines_text ls)
      (\<lambda>y rs. \<exists>x rs1 rs2. rs = rs1 @ rs2 \<and> one_reply x rs1 \<and> replies (length ls) y rs2)"
    unfolding run_commands.simps by (rule exchange_bind[OF exchange_command Cons])
  then show ?case by (auto elim!: exchange_mono simp: one_reply_def replies_def)
qed

lemma exchange_write_lines: "exchange (write_lines W ls) (lines_text ls) no_reply"
proof (induction ls)
  case Nil
  show ?case using exchange_done by simp
next
  case (Cons l ls)
  show ?case using exchange_bind_no_reply[OF exchange_send_command Cons, of "l @ crlf"] by simp
qed

lemma exchange_read_responses: "exchange (read_responses N W n) [] (replies n)"
proof (induction n)
  case 0
  show ?case using exchange_nothing by simp
next
  case (Suc n)
  have "exchange (read_responses N W (Suc n)) ([] @ [])
      (\<lambda>y rs. \<exists>x rs1 rs2. rs = rs1 @ rs2 \<and> one_reply x rs1 \<and> replies n y rs2)"
    unfolding read_responses.simps by (rule exchange_bind[OF exchange_read_response Suc])
  then show ?case by (auto elim!: exchange_mono simp: one_reply_def replies_def)
qed

lemma exchange_send_envelope:
  "exchange (send_envelope N W pipe opts e) (lines_text (envelope_lines opts e))
     (replies (length (envelope_lines opts e)))"
proof (cases pipe)
  case True
  have "exchange (send_envelope N W pipe opts e) (lines_text (envelope_lines opts e) @ [])
      (replies (length (envelope_lines opts e)))"
    unfolding send_envelope_def if_P[OF True]
    by (rule exchange_bind_no_reply[OF exchange_write_lines exchange_read_responses])
  then show ?thesis by (simp only: append_Nil2)
next
  case False
  show ?thesis unfolding send_envelope_def if_not_P[OF False] by (rule exchange_run_commands)
qed

text \<open>
  Lockstep: a command is written only after a positive reply to each one before it.
\<close>

lemma run_commands_lockstep:
  assumes "run_commands N W ls s = Some (o1, s')"
  shows "\<exists>rs q. (\<forall>r \<in> set rs. positive_reply r) \<and> length rs \<le> length ls \<and>
    sent s' = sent s @ lines_text (take (length rs) ls) @ q \<and>
    prefix q (lines_text (take 1 (drop (length rs) ls))) \<and>
    prefix (received s @ replies_string rs) (received s')"
  using assms
proof (induction ls arbitrary: s)
  case Nil
  then show ?case by (intro exI[of _ "[]"]) (simp add: return_action_def)
next
  case (Cons l ls)
  let ?cmd = "command N W (Some (l @ crlf))"
  have "?cmd s \<noteq> Some (Panic, s')" by (rule exchange_no_panic[OF exchange_command])
  then consider (stop) e where "?cmd s = Some (Err e, s')"
    | (go) r s1 where "?cmd s = Some (Ok r, s1)" "run_commands N W ls s1 = Some (o1, s')"
    using Cons.prems by (auto simp: bind_action_def split: option.splits outcome.splits)
  then show ?case
  proof cases
    case stop
    then obtain p where "prefix p (l @ crlf)" "sent s' = sent s @ p"
      "prefix (received s) (received s')"
      using exchange_Err[OF exchange_command] by metis
    then show ?thesis by (intro exI[of _ "[]"] exI[of _ p]) simp
  next
    case go
    note 1 = command_Ok[OF go(1)]
    from Cons.IH[OF go(2)] obtain rs q where "\<forall>r \<in> set rs. positive_reply r" "length rs \<le> length ls"
      "sent s' = sent s1 @ lines_text (take (length rs) ls) @ q"
      "prefix q (lines_text (take 1 (drop (length rs) ls)))"
      "prefix (received s1 @ replies_string rs) (received s')" by blast
    with 1 show ?thesis by (intro exI[of _ "r # rs"] exI[of _ q]) simp
  qed
qed

end

section \<open>The operations of the transport\<close>

text \<open>
  What a whole run of \<open>send\<close> may have put on the wire: part of the transaction, or all of it and
  part of the body, the latter only after a positive reply to each line of the transaction.
\<close>

definition send_progress :: "string list \<Rightarrow> byte list \<Rightarrow> byte list \<Rightarrow> byte list \<Rightarrow> byte list
    \<Rightarrow> byte list \<Rightarrow> bool" where
  "send_progress ls body sent0 sent1 received0 received1 \<longleftrightarrow>
     (\<exists>p. prefix p (lines_text ls) \<and> sent1 = sent0 @ p) \<or>
     (\<exists>p rs. prefix p body \<and> sent1 = sent0 @ lines_text ls @ p \<and> length rs = length ls \<and>
        (\<forall>r \<in> set rs. positive_reply r) \<and> prefix (received0 @ replies_string rs) received1)"

context smtp_session
begin

lemma send_no_panic:
  assumes "countable_envelope (email_envelope email)"
    and "read_to_end R (message_poll_read R) (email_message email) = Some (Inr bs)"
  shows "send oc N W R email t \<noteq> Some (Panic, t')"
proof
  assume "send oc N W R email t = Some (Panic, t')"
  then show False
    using exchange_no_panic[OF exchange_send_envelope]
      exchange_no_panic[OF exchange_message[OF assms(2)]]
    by (auto simp: send_stream[OF assms(1)] on_stream_Some bind_action_Panic)
qed

lemma send_Ok:
  assumes env: "countable_envelope (email_envelope email)"
    and body: "read_to_end R (message_poll_read R) (email_message email) = Some (Inr bs)"
    and ok: "send oc N W R email t = Some (Ok r, t')"
  shows "sent (transport_stream t') = sent (transport_stream t) @
      lines_text (envelope_lines (mail_options t) (email_envelope email)) @ body_text bs"
    and "\<exists>rs. length rs = length (forward_path (email_envelope email)) + 2 \<and>
      (\<forall>x \<in> set (rs @ [r]). positive_reply x) \<and>
      received (transport_stream t') = received (transport_stream t) @ replies_string (rs @ [r])"
proof -
  obtain s1 s2 where
    1: "send_envelope N W (use_pipelining t) (mail_options t) (email_envelope email)
        (transport_stream t) = Some (Ok (), s1)"
    and 2: "stream_message N W R (email_message email) s1 = Some (Ok r, s2)"
    and t': "transport_stream t' = s2"
    using ok by (auto simp: send_stream[OF env] on_stream_Some bind_action_Ok)
  from exchange_Ok[OF exchange_send_envelope 1] obtain rs where rs:
    "sent s1 = sent (transport_stream t) @ lines_text (envelope_lines (mail_options t) (email_envelope email))"
    "length rs = length (forward_path (email_envelope email)) + 2" "\<forall>x \<in> set rs. positive_reply x"
    "received s1 = received (transport_stream t) @ replies_string rs"
    by (auto simp: replies_def)
  from exchange_Ok[OF exchange_message[OF body] 2] have
    "sent s2 = sent s1 @ body_text bs" "positive_reply r" "received s2 = received s1 @ reply_string r"
    by (auto simp: one_reply_def)
  with rs t' show "sent (transport_stream t') = sent (transport_stream t) @
      lines_text (envelope_lines (mail_options t) (email_envelope email)) @ body_text bs"
    and "\<exists>rs. length rs = length (forward_path (email_envelope email)) + 2 \<and>
      (\<forall>x \<in> set (rs @ [r]). positive_reply x) \<and>
      received (transport_stream t') = received (transport_stream t) @ replies_string (rs @ [r])"
    by (auto intro!: exI[of _ rs])
qed

lemma send_Err_progress:
  assumes env: "countable_envelope (email_envelope email)"
    and body: "read_to_end R (message_poll_read R) (email_message email) = Some (Inr bs)"
    and err: "send oc N W R email t = Some (Err e, t')"
  shows "send_progress (envelope_lines (mail_options t) (email_envelope email)) (body_text bs)
    (sent (transport_stream t)) (sent (transport_stream t'))
    (received (transport_stream t)) (received (transport_stream t'))"
proof -
  let ?pre = "send_envelope N W (use_pipelining t) (mail_options t) (email_envelope email)"
  consider "?pre (transport_stream t) = Some (Err e, transport_stream t')"
    | s1 where "?pre (transport_stream t) = Some (Ok (), s1)"
        "stream_message N W R (email_message email) s1 = Some (Err e, transport_stream t')"
    using err by (auto simp: send_stream[OF env] on_stream_Some bind_action_Err)
  then show ?thesis
  proof cases
    case 1
    from exchange_Err[OF exchange_send_envelope 1] show ?thesis
      unfolding send_progress_def by metis
  next
    case (2 s1)
    from exchange_Ok[OF exchange_send_envelope 2(1)] obtain rs where rs:
      "sent s1 = sent (transport_stream t) @ lines_text (envelope_lines (mail_options t) (email_envelope email))"
      "length rs = length (envelope_lines (mail_options t) (email_envelope email))"
      "\<forall>x \<in> set rs. positive_reply x" "received s1 = received (transport_stream t) @ replies_string rs"
      by (auto simp: replies_def)
    from exchange_Err[OF exchange_message[OF body] 2(2)] obtain p where
      "prefix p (body_text bs)" "sent (transport_stream t') = sent s1 @ p"
      "prefix (received s1) (received (transport_stream t'))" by metis
    with rs show ?thesis
      unfolding send_progress_def by (intro disjI2 exI[of _ p] exI[of _ rs]) simp
  qed
qed

lemma starttls_Ok:
  assumes "starttls N W t = Some (Ok s, t')"
  shows "transport_supports_feature t StartTls" and "s = transport_stream t'"
    and "sent s = sent (transport_stream t) @ ''STARTTLS'' @ crlf"
    and "\<exists>r. positive_reply r \<and> received s = received (transport_stream t) @ reply_string r"
proof -
  show sup: "transport_supports_feature t StartTls"
    using assms by (auto simp: starttls_def fail_action_def split: if_splits)
  obtain r s1 where c: "command N W (Some (starttls_fmt StarttlsCommand)) (transport_stream t) =
      Some (Ok r, s1)" and s1: "s = s1" "transport_stream t' = s1"
    using assms sup
    by (auto simp: starttls_def bind_action_Ok on_stream_Some return_action_def into_inner_def)
  then show "s = transport_stream t'" by simp
  show "sent s = sent (transport_stream t) @ ''STARTTLS'' @ crlf"
    using command_Ok(1)[OF c] s1 by (simp add: starttls_fmt_def)
  show "\<exists>r. positive_reply r \<and> received s = received (transport_stream t) @ reply_string r"
    using command_Ok(2,3)[OF c] s1 by blast
qed

lemma transport_new_Ok:
  assumes "transport_new N W builder s = Some (Ok t, s')"
  shows "transport_client t = builder" and "transport_stream t = s'"
    and "sent s' = sent s @ ''EHLO '' @ client_id_fmt (client_hello_name builder) @ crlf"
    and "\<exists>rs r. length rs = (if expect_greeting builder then 1 else 0) \<and>
      (\<forall>x \<in> set (rs @ [r]). positive_reply x) \<and>
      received s' = received s @ replies_string (rs @ [r]) \<and>
      from_response r = Inr (transport_server t)"
proof -
  obtain s1 r s2 info where
    1: "read_greeting N W builder s = Some (Ok (), s1)"
    and 2: "ehlo N W (client_id_new (client_id_fmt (client_hello_name builder))) s1 = Some (Ok r, s2)"
    and 3: "of_result (from_response r) = Ok info" and 4: "s' = s2"
      "t = \<lparr>transport_server = info, transport_client = builder, transport_stream = s2\<rparr>"
    using assms
    by (auto simp: transport_new_def stream_new_def bind_action_Ok lift_result_def return_action_def)
  show "transport_client t = builder" "transport_stream t = s'" using 4 by simp_all
  have "sent s1 = sent s \<and> (\<exists>rs. length rs = (if expect_greeting builder then 1 else 0) \<and>
      (\<forall>x \<in> set rs. positive_reply x) \<and> received s1 = received s @ replies_string rs)"
  proof (cases "expect_greeting builder")
    case True
    then obtain g where "read_response N W s = Some (Ok g, s1)"
      using 1 by (auto simp: read_greeting_def bind_action_Ok return_action_def)
    then show ?thesis
      using read_response_Ok True by (intro conjI exI[of _ "[g]"]) (auto simp: positive_reply_def)
  next
    case False
    then show ?thesis using 1 by (simp add: read_greeting_def return_action_def)
  qed
  then obtain rs where rs: "sent s1 = sent s" "length rs = (if expect_greeting builder then 1 else 0)"
    "\<forall>x \<in> set rs. positive_reply x" "received s1 = received s @ replies_string rs" by blast
  have "command N W (Some (ehlo_fmt (ehlo_new (client_id_new (client_id_fmt (client_hello_name builder))))))
      s1 = Some (Ok r, s2)" using 2 by (simp add: ehlo_def)
  from command_Ok[OF this] have r: "sent s2 = sent s1 @ ''EHLO '' @ client_id_fmt (client_hello_name builder) @ crlf"
    "positive_reply r" "received s2 = received s1 @ reply_string r"
    by (simp_all add: ehlo_fmt_def ehlo_new_def client_id_new_def)
  show "sent s' = sent s @ ''EHLO '' @ client_id_fmt (client_hello_name builder) @ crlf"
    using r(1) rs(1) 4 by simp
  have "from_response r = Inr info" using 3 by (cases "from_response r") simp_all
  with r rs 4 show "\<exists>rs r. length rs = (if expect_greeting builder then 1 else 0) \<and>
      (\<forall>x \<in> set (rs @ [r]). positive_reply x) \<and>
      received s' = received s @ replies_string (rs @ [r]) \<and>
      from_response r = Inr (transport_server t)"
    by (intro exI[of _ rs] exI[of _ r]) auto
qed

end

section \<open>Authentication exchanges\<close>

text \<open>What \<open>auth\<close> writes after the challenge \<open>r\<close>.\<close>

definition answer_text :: "base64_lib \<Rightarrow> mechanism \<Rightarrow> credentials \<Rightarrow> response \<Rightarrow> string \<Rightarrow> bool" where
  "answer_text B m c r t \<longleftrightarrow> (\<exists>cmd. auth_new_from_response B m c r = Inr cmd \<and> t = auth_fmt B cmd)"

lemma answer_text_challenge: "answer_text B m c r t \<Longrightarrow> has_code r 334"
  by (auto simp: answer_text_def auth_new_from_response_def split: if_splits)

lemma lift_result_Inr: "bind_action (lift_result (Inr x)) f = f x"
  by (rule ext) (simp add: bind_action_def lift_result_def)

lemma lift_result_Ok: "lift_result q s = Some (Ok x, s') \<longleftrightarrow> q = Inr x \<and> s' = s"
  by (cases q) (auto simp: lift_result_def)

context smtp_session
begin

lemma auth_loop_Ok:
  assumes "auth_loop N W B m c n r s = Some (Ok (k, r'), s')"
  shows "\<exists>rs ts. list_all2 (answer_text B m c) (butlast (r # rs)) ts \<and> r' = last (r # rs) \<and>
    k + length rs = n \<and> sent s' = sent s @ concat ts \<and> received s' = received s @ replies_string rs \<and>
    (\<forall>x \<in> set rs. positive_reply x) \<and> (0 < k \<longrightarrow> \<not> has_code r' 334)"
  using assms
proof (induction n arbitrary: r s)
  case 0
  then show ?case by (intro exI[of _ "[]"]) (simp add: return_action_def)
next
  case (Suc n)
  show ?case
  proof (cases "has_code r 334")
    case True
    then obtain cmd r1 s1 where cmd: "auth_new_from_response B m c r = Inr cmd"
      and 1: "command N W (Some (auth_fmt B cmd)) s = Some (Ok r1, s1)"
      and 2: "auth_loop N W B m c n r1 s1 = Some (Ok (k, r'), s')"
      using Suc.prems by (auto simp: lift_result_Ok bind_action_Ok)
    from Suc.IH[OF 2] obtain rs ts where
      "list_all2 (answer_text B m c) (butlast (r1 # rs)) ts" "r' = last (r1 # rs)"
      "k + length rs = n" "sent s' = sent s1 @ concat ts" "received s' = received s1 @ replies_string rs"
      "\<forall>x \<in> set rs. positive_reply x" "0 < k \<longrightarrow> \<not> has_code r' 334" by blast
    moreover have "answer_text B m c r (auth_fmt B cmd)" using cmd by (auto simp: answer_text_def)
    ultimately show ?thesis using command_Ok[OF 1]
      by (intro exI[of _ "r1 # rs"] exI[of _ "auth_fmt B cmd # ts"]) auto
  next
    case False
    then show ?thesis using Suc.prems by (intro exI[of _ "[]"]) (auto simp: return_action_def)
  qed
qed

text \<open>
  A successful \<open>auth\<close>: the replies \<open>rs\<close> are challenges but for the last one, which is the
  result, and every challenge has been answered.
\<close>

lemma auth_Ok:
  assumes "auth N W B m c t = Some (Ok r, t')"
  shows "\<exists>cmd rs ts. auth_new m c None = Inr cmd \<and>
    sent (transport_stream t') = sent (transport_stream t) @ auth_fmt B cmd @ concat ts \<and>
    received (transport_stream t') = received (transport_stream t) @ replies_string rs \<and>
    rs \<noteq> [] \<and> length rs \<le> 10 \<and> list_all2 (answer_text B m c) (butlast rs) ts \<and> last rs = r \<and>
    (\<forall>x \<in> set rs. positive_reply x) \<and> \<not> has_code r 334"
proof -
  obtain cmd r0 s1 k r1 s2 where cmd: "auth_new m c None = Inr cmd"
    and 1: "command N W (Some (auth_fmt B cmd)) (transport_stream t) = Some (Ok r0, s1)"
    and 2: "auth_loop N W B m c 10 r0 s1 = Some (Ok (k, r1), s2)"
    and 3: "(if k = 0 then fail_action (ResponseParsing ''Unexpected number of challenges'')
        else return_action r1) s2 = Some (Ok r, transport_stream t')"
    using assms by (auto simp: auth_def on_stream_Some lift_result_Ok bind_action_Ok)
  have k: "0 < k" "r1 = r" "s2 = transport_stream t'"
    using 3 by (auto simp: fail_action_def return_action_def split: if_splits)
  from auth_loop_Ok[OF 2] obtain rs ts where
    "list_all2 (answer_text B m c) (butlast (r0 # rs)) ts" "r1 = last (r0 # rs)" "k + length rs = 10"
    "sent s2 = sent s1 @ concat ts" "received s2 = received s1 @ replies_string rs"
    "\<forall>x \<in> set rs. positive_reply x" "0 < k \<longrightarrow> \<not> has_code r1 334" by blast
  with cmd command_Ok[OF 1] k show ?thesis
    by (intro exI[of _ cmd] exI[of _ "r0 # rs"] exI[of _ ts]) auto
qed

end

section \<open>The LOGIN exchange\<close>

definition challenge_response :: "base64_lib \<Rightarrow> string \<Rightarrow> response" where
  "challenge_response B ch =
     \<lparr>code = \<lparr>severity = PositiveIntermediate, category = Unspecified3, detail = Four\<rparr>,
      message = [b64_encode B ch]\<rparr>"

text \<open>The answer of LOGIN to a challenge it knows.\<close>

definition login_answers :: "credentials \<Rightarrow> string \<Rightarrow> string \<Rightarrow> bool" where
  "login_answers c ch a \<longleftrightarrow> mechanism_response Login c (Some ch) = Inr a"

lemma login_challenges:
  assumes "login_answers c ch a"
  shows "ch \<noteq> []" and "utf8_valid ch"
proof -
  have ch: "ch \<in> set [''User Name'', ''Username:'', ''Username'', ''Password'', ''Password:'']"
    using assms by (auto simp: login_answers_def split: if_splits)
  then show "ch \<noteq> []" by auto
  have "\<forall>x \<in> set [''User Name'', ''Username:'', ''Username'', ''Password'', ''Password:'']. \<forall>c \<in> set x. is_ascii c"
    by (simp add: is_ascii_def)
  with ch show "utf8_valid ch" using utf8_valid_ascii by blast
qed

context base64_api
begin

lemma challenge_has_code: "has_code (challenge_response B ch) 334" "is_positive (challenge_response B ch)"
  by (simp_all add: challenge_response_def has_code_iff code_number_def is_positive_def)

lemma challenge_readable: "readable (challenge_response B ch)"
proof -
  have ascii: "is_ascii x" if "graphic x" for x using that by (simp add: graphic_def is_ascii_def)
  have "\<forall>x \<in> set (reply_string (challenge_response B ch)). is_ascii x"
    using encode_graphic ascii
    by (auto simp: reply_string_def raw_reply_def reply_text_def challenge_response_def code_fmt_def
        severity_fmt_def category_fmt_def detail_fmt_def digit_fmt_simps is_ascii_def)
  moreover have "one_line (b64_encode B ch)" using encode_graphic by (intro one_line_graphic) blast
  ultimately show ?thesis
    by (simp add: readable_def utf8_valid_ascii wf_response_def challenge_response_def one_line_no_crlf)
qed

lemma login_step:
  assumes "login_answers c ch a"
  shows "\<exists>cmd. auth_new_from_response B Login c (challenge_response B ch) = Inr cmd \<and>
    auth_fmt B cmd = b64_encode B a @ crlf"
proof -
  have "split_whitespace (b64_encode B ch) = [b64_encode B ch]"
    using encode_graphic encode_eq_Nil login_challenges(1)[OF assms]
    by (intro split_whitespace_last_word) auto
  then have "first_word (challenge_response B ch) = Some (b64_encode B ch)"
    by (simp add: first_word_def challenge_response_def)
  then show ?thesis
    using assms login_challenges(2)[OF assms] challenge_has_code
    by (auto simp: auth_new_from_response_def decode_encode login_answers_def auth_fmt_def Let_def)
qed

end

section \<open>Peers that answer\<close>

text \<open>
  What \<open>send\<close> makes of the replies \<open>rs\<close> to the lines of the transaction: the first negative
  one is its error. \<open>after_negative\<close> is what comes after that reply.
\<close>

fun first_negative :: "response list \<Rightarrow> unit outcome" where
  "first_negative [] = Ok ()"
| "first_negative (r # rs) = (if is_positive r then first_negative rs else Err (error_from_response r))"

fun after_negative :: "response list \<Rightarrow> response list" where
  "after_negative [] = []"
| "after_negative (r # rs) = (if is_positive r then after_negative rs else rs)"

lemma first_negative_Ok: "first_negative rs = Ok x \<longleftrightarrow> (\<forall>r \<in> set rs. is_positive r)"
  by (induction rs) auto

lemma first_negative_not_Panic: "first_negative rs \<noteq> Panic"
  by (induction rs) auto

lemma after_negative_positive: "\<forall>r \<in> set rs. is_positive r \<Longrightarrow> after_negative rs = []"
  by (induction rs) auto

context live_session
begin

lemma command_live:
  assumes "readable r" and "is_positive r" and "pending s = []" and "answers s = reply_string r # A"
  obtains s' where "command N W (Some t) s = Some (Ok r, s')" "sent s' = sent s @ t"
    "pending s' = []" "answers s' = A"
proof -
  have "yields (command N W (Some t)) s (reply_result r) [] (drop 1 (answers s))"
    by (rule yields_command) (use assms in simp_all)
  then obtain s' where "command N W (Some t) s = Some (Ok r, s')" "pending s' = []" "answers s' = A"
    using assms(2,4) by (auto simp: yields_def reply_result_def)
  with command_Ok(1) that show thesis by blast
qed

lemma yields_run_commands:
  assumes "\<forall>r \<in> set rs. readable r" and "length rs = length ls"
    and "pending s = []" and "answers s = map reply_string rs @ A"
  shows "yields (run_commands N W ls) s (first_negative rs) [] (map reply_string (after_negative rs) @ A)"
  using assms
proof (induction ls arbitrary: rs s)
  case Nil
  then show ?case using yields_return[of "()" s] by simp
next
  case (Cons l ls)
  then obtain r rs' where rs: "rs = r # rs'" by (cases rs) auto
  have step: "yields (command N W (Some (l @ crlf))) s (reply_result r) [] (map reply_string rs' @ A)"
    using yields_command[of r s "[]"] Cons.prems rs by simp
  show ?case
  proof (cases "is_positive r")
    case True
    then have "yields (command N W (Some (l @ crlf))) s (Ok r) [] (map reply_string rs' @ A)"
      using step by (simp add: reply_result_def)
    then have "yields (run_commands N W (l # ls)) s (first_negative rs') []
        (map reply_string (after_negative rs') @ A)"
      unfolding run_commands.simps by (rule yields_bind) (use Cons rs in simp)
    with True rs show ?thesis by simp
  next
    case False
    then show ?thesis using step rs yields_bind_Err by (simp add: reply_result_def)
  qed
qed

lemma yields_write_lines:
  "yields (write_lines W ls) s (Ok ()) (pending s @ concat (take (length ls) (answers s)))
     (drop (length ls) (answers s))"
proof (induction ls arbitrary: s)
  case Nil
  then show ?case using yields_return[of "()" s] by simp
next
  case (Cons l ls)
  show ?case unfolding write_lines.simps
  proof (rule yields_bind[OF yields_send_command])
    fix s' assume "pending s' = pending s @ concat (take 1 (answers s))" "answers s' = drop 1 (answers s)"
    with Cons[of s'] show "yields (write_lines W ls) s' (Ok ())
        (pending s @ concat (take (length (l # ls)) (answers s))) (drop (length (l # ls)) (answers s))"
      by (cases "answers s") simp_all
  qed
qed

lemma yields_read_responses:
  assumes "\<forall>r \<in> set rs. readable r" and "pending s = replies_string rs @ P"
  shows "yields (read_responses N W (length rs)) s (first_negative rs)
    (replies_string (after_negative rs) @ P) (answers s)"
  using assms
proof (induction rs arbitrary: s)
  case Nil
  then show ?case using yields_return[of "()" s] by simp
next
  case (Cons r rs)
  have step: "yields (read_response N W) s (reply_result r) (replies_string rs @ P) (answers s)"
    using yields_read_response Cons.prems by simp
  show ?case
  proof (cases "is_positive r")
    case True
    then have "yields (read_response N W) s (Ok r) (replies_string rs @ P) (answers s)"
      using step by (simp add: reply_result_def)
    then have "yields (read_responses N W (length (r # rs))) s (first_negative rs)
        (replies_string (after_negative rs) @ P) (answers s)"
      unfolding list.size(4) add_Suc_right add_0_right read_responses.simps
      by (rule yields_bind) (metis Cons.IH Cons.prems(1) list.set_intros(2))
    with True show ?thesis by simp
  next
    case False
    then show ?thesis using step yields_bind_Err by (simp add: reply_result_def)
  qed
qed

text \<open>
  The two modes have the same outcome with the same peer. They differ in what is left to read after
  a negative reply: nothing in the sequential mode, the rest of the replies in the pipelined one.
\<close>

lemma yields_send_envelope:
  assumes "\<forall>r \<in> set rs. readable r" and "length rs = length (envelope_lines opts e)"
    and "pending s = []" and "answers s = map reply_string rs @ A"
  shows "yields (send_envelope N W pipe opts e) s (first_negative rs)
    (if pipe then replies_string (after_negative rs) else [])
    (if pipe then A else map reply_string (after_negative rs) @ A)"
proof (cases pipe)
  case True
  have P: "pending s @ concat (take (length (envelope_lines opts e)) (answers s)) = replies_string rs"
    and A: "drop (length (envelope_lines opts e)) (answers s) = A"
    using assms(2-4) by (simp_all add: replies_string_def flip: assms(2))
  have "yields (write_lines W (envelope_lines opts e)) s (Ok ()) (replies_string rs) A"
    using yields_write_lines[of "envelope_lines opts e" s] unfolding P A .
  then have "yields (bind_action (write_lines W (envelope_lines opts e))
      (\<lambda>_. read_responses N W (length (envelope_lines opts e)))) s (first_negative rs)
      (replies_string (after_negative rs)) A"
  proof (rule yields_bind)
    fix s' assume "pending s' = replies_string rs" "answers s' = A"
    with yields_read_responses[OF assms(1), of s' "[]"]
    show "yields (read_responses N W (length (envelope_lines opts e))) s' (first_negative rs)
        (replies_string (after_negative rs)) A"
      unfolding assms(2)[symmetric] by simp
  qed
  with True show ?thesis by (simp only: send_envelope_def if_True)
next
  case False
  with yields_run_commands[OF assms] show ?thesis by (simp only: send_envelope_def if_False)
qed

end

context live_session
begin

lemma yields_on_stream:
  "yields m (transport_stream t) o1 P A \<Longrightarrow>
   \<exists>t'. on_stream m t = Some (o1, t') \<and> pending (transport_stream t') = P \<and>
        answers (transport_stream t') = A"
  by (auto simp: yields_def on_stream_Some)

lemma send_live_positive:
  assumes "countable_envelope (email_envelope email)"
    and "read_to_end R (message_poll_read R) (email_message email) = Some (Inr bs)"
    and "length rs = length (forward_path (email_envelope email)) + 2"
    and "\<forall>x \<in> set (rs @ [r]). readable x" and "\<forall>x \<in> set rs. is_positive x"
    and "pending (transport_stream t) = []"
    and "answers (transport_stream t) = map reply_string (rs @ [r]) @ A"
  shows "\<exists>t'. send oc N W R email t = Some (reply_result r, t') \<and>
    pending (transport_stream t') = [] \<and> answers (transport_stream t') = A"
proof -
  let ?e = "email_envelope email"
  have "yields (send_envelope N W (use_pipelining t) (mail_options t) ?e) (transport_stream t) (Ok ())
      [] (map reply_string [r] @ A)"
    using yields_send_envelope[of rs "mail_options t" ?e "transport_stream t" "map reply_string [r] @ A"
        "use_pipelining t"] assms first_negative_Ok[of rs "()"] after_negative_positive[of rs]
    by (cases "use_pipelining t") simp_all
  then have "yields (bind_action (send_envelope N W (use_pipelining t) (mail_options t) ?e)
      (\<lambda>_. stream_message N W R (email_message email))) (transport_stream t) (reply_result r) [] A"
  proof (rule yields_bind)
    fix s' assume "pending s' = []" "answers s' = map reply_string [r] @ A"
    with yields_message[OF assms(2), of r s' "[]"] assms(4)
    show "yields (stream_message N W R (email_message email)) s' (reply_result r) [] A" by simp
  qed
  then show ?thesis unfolding send_stream[OF assms(1)] by (rule yields_on_stream)
qed

lemma send_live_negative:
  assumes "countable_envelope (email_envelope email)"
    and "length rs = length (forward_path (email_envelope email)) + 2"
    and "\<forall>x \<in> set rs. readable x" and "\<not> (\<forall>x \<in> set rs. is_positive x)"
    and "pending (transport_stream t) = []"
    and "answers (transport_stream t) = map reply_string rs @ A"
  shows "\<exists>t' e. first_negative rs = Err e \<and> send oc N W R email t = Some (Err e, t') \<and>
    pending (transport_stream t') = (if use_pipelining t then replies_string (after_negative rs) else []) \<and>
    answers (transport_stream t') =
      (if use_pipelining t then A else map reply_string (after_negative rs) @ A)"
proof -
  obtain e where e: "first_negative rs = Err e"
    using first_negative_Ok first_negative_not_Panic assms(4) by (cases "first_negative rs") metis+
  have "yields (send_envelope N W (use_pipelining t) (mail_options t) (email_envelope email))
      (transport_stream t) (Err e)
      (if use_pipelining t then replies_string (after_negative rs) else [])
      (if use_pipelining t then A else map reply_string (after_negative rs) @ A)"
    using yields_send_envelope[OF assms(3) _ assms(5,6)] assms(2) e by simp
  then show ?thesis
    using e yields_on_stream[OF yields_bind_Err] unfolding send_stream[OF assms(1)] by blast
qed

text \<open>LOGIN: every challenge is answered in turn, and the loop ends with the reply after the last.\<close>

lemma login_loop_live:
  assumes B: "base64_api B" and r: "readable r" "is_positive r" "\<not> has_code r 334"
    and "list_all2 (login_answers c) (ch # chs) (a # as)" and "length chs < n"
    and "pending s = []"
    and "answers s = map (\<lambda>x. reply_string (challenge_response B x)) chs @ reply_string r # A"
  shows "\<exists>s'. auth_loop N W B Login c n (challenge_response B ch) s = Some (Ok (n - Suc (length chs), r), s') \<and>
    sent s' = sent s @ lines_text (map (b64_encode B) (a # as)) \<and> pending s' = [] \<and> answers s' = A"
  using assms(5-8)
proof (induction chs arbitrary: ch a as n s)
  case Nil
  obtain k where n: "n = Suc k" using Nil.prems(2) by (cases n) auto
  have "login_answers c ch a" and as: "as = []" using Nil.prems(1) by auto
  then obtain cmd where cmd: "auth_new_from_response B Login c (challenge_response B ch) = Inr cmd"
    "auth_fmt B cmd = b64_encode B a @ crlf" using base64_api.login_step[OF B] by blast
  obtain s1 where s1: "command N W (Some (auth_fmt B cmd)) s = Some (Ok r, s1)"
    "sent s1 = sent s @ auth_fmt B cmd" "pending s1 = []" "answers s1 = A"
    by (rule command_live[OF r(1,2), of s A]) (use Nil.prems in auto)
  have "auth_loop N W B Login c k r s1 = Some (Ok (k, r), s1)"
    using r(3) by (cases k) (simp_all add: return_action_def)
  with cmd s1 n as base64_api.challenge_has_code[OF B] show ?case
    by (simp add: bind_action_def lift_result_def)
next
  case (Cons ch2 chs)
  obtain k where n: "n = Suc k" "length chs < k" using Cons.prems(2) by (cases n) auto
  obtain a2 as2 where as: "as = a2 # as2" "login_answers c ch a"
    "list_all2 (login_answers c) (ch2 # chs) (a2 # as2)"
    using Cons.prems(1) by (auto simp: list_all2_Cons1)
  obtain cmd where cmd: "auth_new_from_response B Login c (challenge_response B ch) = Inr cmd"
    "auth_fmt B cmd = b64_encode B a @ crlf" using base64_api.login_step[OF B as(2)] by blast
  obtain s1 where s1: "command N W (Some (auth_fmt B cmd)) s = Some (Ok (challenge_response B ch2), s1)"
    "sent s1 = sent s @ auth_fmt B cmd" "pending s1 = []"
    "answers s1 = map (\<lambda>x. reply_string (challenge_response B x)) chs @ reply_string r # A"
    by (rule command_live[of "challenge_response B ch2" s])
      (use Cons.prems base64_api.challenge_readable[OF B] base64_api.challenge_has_code[OF B] in auto)
  from Cons.IH[OF as(3) n(2) s1(3,4)] obtain s' where
    "auth_loop N W B Login c k (challenge_response B ch2) s1 = Some (Ok (k - Suc (length chs), r), s')"
    "sent s' = sent s1 @ lines_text (map (b64_encode B) (a2 # as2))" "pending s' = []" "answers s' = A"
    by blast
  with cmd s1 n as(1) base64_api.challenge_has_code[OF B] show ?case
    by (simp add: bind_action_def lift_result_def)
qed

lemma auth_login_live:
  assumes B: "base64_api B" and r: "readable r" "is_positive r" "\<not> has_code r 334"
    and answers: "list_all2 (login_answers c) chs as" "chs \<noteq> []" "length chs \<le> 10"
    and "pending (transport_stream t) = []"
    and "answers (transport_stream t) =
      map (\<lambda>x. reply_string (challenge_response B x)) chs @ reply_string r # A"
  shows "\<exists>t'. auth N W B Login c t =
      Some (if length chs = 10 then Err (ResponseParsing ''Unexpected number of challenges'') else Ok r, t') \<and>
    sent (transport_stream t') = sent (transport_stream t) @ ''AUTH LOGIN'' @ crlf @ lines_text (map (b64_encode B) as) \<and>
    pending (transport_stream t') = [] \<and> answers (transport_stream t') = A"
proof -
  obtain ch chs' a as' where ch: "chs = ch # chs'" "as = a # as'"
    using answers by (cases chs; cases as) auto
  let ?s = "transport_stream t"
  let ?cmd = "\<lparr>auth_mechanism = Login, auth_credentials = c, auth_challenge = None, auth_response = None\<rparr>"
  have cmd: "auth_new Login c None = Inr ?cmd" "auth_fmt B ?cmd = ''AUTH LOGIN'' @ crlf"
    by (simp_all add: auth_new_def auth_fmt_def)
  obtain s1 where s1: "command N W (Some (auth_fmt B ?cmd)) ?s = Some (Ok (challenge_response B ch), s1)"
    "sent s1 = sent ?s @ auth_fmt B ?cmd" "pending s1 = []"
    "answers s1 = map (\<lambda>x. reply_string (challenge_response B x)) chs' @ reply_string r # A"
    by (rule command_live[of "challenge_response B ch" ?s])
      (use assms(8,9) ch base64_api.challenge_readable[OF B] base64_api.challenge_has_code[OF B] in auto)
  have len: "length chs' < 10" using answers(3) ch by simp
  from login_loop_live[OF B r answers(1)[unfolded ch] len s1(3,4)] obtain s2 where s2:
    "auth_loop N W B Login c 10 (challenge_response B ch) s1 = Some (Ok (10 - Suc (length chs'), r), s2)"
    "sent s2 = sent s1 @ lines_text (map (b64_encode B) as)" "pending s2 = []" "answers s2 = A"
    using ch by blast
  show ?thesis
  proof (intro exI conjI)
    show "auth N W B Login c t =
      Some (if length chs = 10 then Err (ResponseParsing ''Unexpected number of challenges'') else Ok r,
        t\<lparr>transport_stream := s2\<rparr>)"
      unfolding auth_def on_stream_def
      using cmd s1(1) s2(1) ch len
      by (simp add: bind_action_def lift_result_def fail_action_def return_action_def
          del: auth_loop.simps)
  qed (use s1 s2 cmd in simp_all)
qed

text \<open>A command and its reply, positive or negative.\<close>

lemma command_live_any:
  assumes "readable r" and "pending s = []" and "answers s = reply_string r # A"
  obtains s' where "command N W (Some t) s = Some (reply_result r, s')" "sent s' = sent s @ t"
    "pending s' = []" "answers s' = A"
proof -
  obtain s1 where s1: "send_command W (Some t) s = Some (Ok (), s1)" "pending s1 = reply_string r"
    "answers s1 = A"
    using yields_send_command[of t s] assms by (auto simp: yields_def)
  have sent1: "sent s1 = sent s @ t" using exchange_Ok[OF exchange_send_command s1(1)] by blast
  obtain s' where s': "read_response N W s1 = Some (reply_result r, s')" "pending s' = []" "answers s' = A"
    using yields_read_response[OF assms(1), of s1 "[]"] s1 by (auto simp: yields_def)
  have "sent s' = sent s1" using read_response_result[OF s'(1)] by blast
  with s' s1(1) sent1 that show thesis by (simp add: command_def bind_action_def)
qed

text \<open>The exchange of a mechanism that sends its response with the command.\<close>

lemma auth_initial_live:
  assumes "supports_initial_response m" and "readable r"
    and "pending (transport_stream t) = []" and "answers (transport_stream t) = reply_string r # A"
  shows "\<exists>t' resp o1. mechanism_response m c None = Inr resp \<and> auth N W B m c t = Some (o1, t') \<and>
    sent (transport_stream t') = sent (transport_stream t) @
      ''AUTH '' @ mechanism_fmt m @ '' '' @ b64_encode B resp @ crlf \<and>
    pending (transport_stream t') = [] \<and> answers (transport_stream t') = A \<and>
    (if has_code r 334 then \<exists>e. auth_new_from_response B m c r = Inl e \<and> o1 = Err e
     else o1 = reply_result r)"
proof -
  let ?s = "transport_stream t"
  obtain resp where resp: "mechanism_response m c None = Inr resp"
    using sasl.initial_responds assms(1) by blast
  let ?cmd = "\<lparr>auth_mechanism = m, auth_credentials = c, auth_challenge = None, auth_response = Some resp\<rparr>"
  have cmd: "auth_new m c None = Inr ?cmd"
    "auth_fmt B ?cmd = ''AUTH '' @ mechanism_fmt m @ '' '' @ b64_encode B resp @ crlf"
    using assms(1) resp by (simp_all add: auth_new_def auth_fmt_def)
  obtain s1 where s1: "command N W (Some (auth_fmt B ?cmd)) ?s = Some (reply_result r, s1)"
    "sent s1 = sent ?s @ auth_fmt B ?cmd" "pending s1 = []" "answers s1 = A"
    by (rule command_live_any[OF assms(2-4)])
  obtain o1 where o1: "auth N W B m c t = Some (o1, t\<lparr>transport_stream := s1\<rparr>)"
    "if has_code r 334 then \<exists>e. auth_new_from_response B m c r = Inl e \<and> o1 = Err e else o1 = reply_result r"
  proof (cases "has_code r 334")
    case True
    then have pos: "reply_result r = Ok r" by (simp add: reply_result_def has_code_positive)
    obtain e where e: "auth_new_from_response B m c r = Inl e"
      using auth_no_second_response[OF assms(1)] by blast
    have "auth N W B m c t = Some (Err e, t\<lparr>transport_stream := s1\<rparr>)"
      unfolding auth_def on_stream_def cmd(1) lift_result_Inr
      using s1(1) True e by (simp add: pos bind_action_def lift_result_def numeral_eq_Suc)
    with that e True show thesis by simp
  next
    case False
    have "auth N W B m c t = Some (reply_result r, t\<lparr>transport_stream := s1\<rparr>)"
      unfolding auth_def on_stream_def cmd(1) lift_result_Inr
      using s1(1) False
      by (simp add: reply_result_def bind_action_def return_action_def numeral_eq_Suc)
    with that False show thesis by simp
  qed
  show ?thesis
    by (intro exI[of _ "t\<lparr>transport_stream := s1\<rparr>"] exI[of _ resp] exI[of _ o1] conjI)
      (use resp o1 s1 cmd(2) in simp_all)
qed

end

lemma after_negative_last:
  "\<not> (\<forall>x \<in> set rs. is_positive x) \<Longrightarrow> is_positive (last rs) \<Longrightarrow>
   suffix (reply_string (last rs)) (replies_string (after_negative rs))"
proof (induction rs)
  case (Cons r rs)
  show ?case
  proof (cases "is_positive r")
    case False
    then have "rs \<noteq> []" using Cons.prems(2) by auto
    then have "replies_string rs = replies_string (butlast rs) @ reply_string (last rs)"
      using replies_string_simps(3)[of "butlast rs" "[last rs]"] by simp
    with False \<open>rs \<noteq> []\<close> show ?thesis by (simp add: suffix_def)
  qed (use Cons in auto)
qed simp

section \<open>A scripted transport\<close>

definition sample_envelope :: envelope where
  "sample_envelope = \<lparr>forward_path = [EmailAddress ''b@y.org''], reverse_path = Some (EmailAddress ''a@x.org'')\<rparr>"

definition sample_transport :: "extension set \<Rightarrow> bool \<Rightarrow> byte list list \<Rightarrow> script transport" where
  "sample_transport fs pipe replies_to = \<lparr>transport_server = \<lparr>server_name = ''mx'', features = fs\<rparr>,
     transport_client = pipelining smtp_client_new pipe, transport_stream = connect [] replies_to\<rparr>"

lemma sample_transport_simps [simp]:
  "transport_stream (sample_transport fs pipe rs) = connect [] rs"
  "use_pipelining (sample_transport fs pipe rs) \<longleftrightarrow> Pipelining \<in> fs \<and> pipe"
  "transport_server (sample_transport fs pipe rs) = \<lparr>server_name = ''mx'', features = fs\<rparr>"
  "transport_client (sample_transport fs pipe rs) = pipelining smtp_client_new pipe"
  "mail_options (sample_transport fs pipe rs) = (if EightBitMime \<in> fs then [Body BodyEightBitMime] else [])"
  by (simp_all add: sample_transport_def use_pipelining_def transport_supports_feature_def
      supports_feature_def pipelining_def mail_options_def smtp_client_new_def)

lemma connect_simps [simp]:
  "written (connect g as) = []" "got (connect g as) = []" "inbox (connect g as) = g"
  "reactions (connect g as) = as"
  by (simp_all add: connect_def)

lemma sample_envelope_simps [simp]:
  "envelope_ok sample_envelope" "countable_envelope sample_envelope"
  "length (forward_path sample_envelope) = Suc 0"
  by (simp_all add: sample_envelope_def envelope_ok_def email_ok_iff graphic_def countable_envelope_def)

lemma sample_lines:
  "envelope_lines [] sample_envelope = [''MAIL FROM:<a@x.org>'', ''RCPT TO:<b@y.org>'', ''DATA'']"
  by (simp add: envelope_lines_def mail_line_def rcpt_line_def sample_envelope_def)

definition sample_email :: "byte list \<Rightarrow> byte list sendable_email" where
  "sample_email m = sendable_email_new sample_envelope m"

lemma sample_email_simps [simp]:
  "email_envelope (sample_email m) = sample_envelope"
  "read_to_end read_ref (message_poll_read read_ref) (email_message (sample_email m)) = Some (Inr m)"
  using ref_read.read_to_end_bytes[of sample_envelope m]
  by (simp_all add: sample_email_def sendable_email_new_def)

lemma scripted_send:
  "\<exists>t'. send oc nom_ref script_ops read_ref (sample_email m)
      (sample_transport fs pipe (replicate 4 (reply_string accepted))) = Some (Ok accepted, t')"
proof -
  have "\<exists>t'. send oc nom_ref script_ops read_ref (sample_email m)
      (sample_transport fs pipe (map reply_string (replicate 3 accepted @ [accepted]) @ [])) =
      Some (reply_result accepted, t') \<and> inbox (transport_stream t') = [] \<and> reactions (transport_stream t') = []"
    by (rule script_session.send_live_positive[where bs = m and rs = "replicate 3 accepted" and r = accepted])
      (use accepted_reply in auto)
  moreover have "map reply_string (replicate 3 accepted @ [accepted]) @ [] = replicate 4 (reply_string accepted)"
    by (simp add: eval_nat_numeral)
  ultimately show ?thesis by (auto simp: reply_result_def accepted_reply(3))
qed

section \<open>Properties\<close>

text \<open>
  C2: a successful \<open>send\<close> (to fewer than \<open>2 ^ 31 - 2\<close> recipients) has written, in both modes, exactly the MAIL line with the options
  the server supports, a RCPT line for each recipient, DATA, the encoded body and its end mark; it
  has read exactly one positive reply for each line and one for the body, which is its result.
\<close>

theorem send_wire_exact:
  assumes "smtp_session W sent received N" and "countable_envelope (email_envelope email)"
    and "read_to_end R (message_poll_read R) (email_message email) = Some (Inr m)"
    and "send oc N W R email t = Some (Ok r, t')"
  shows "sent (transport_stream t') = sent (transport_stream t) @
      lines_text (envelope_lines (mail_options t) (email_envelope email)) @ body_text m \<and>
    (\<exists>rs. length rs = length (forward_path (email_envelope email)) + 2 \<and>
      (\<forall>x \<in> set (rs @ [r]). positive_reply x) \<and>
      received (transport_stream t') = received (transport_stream t) @ replies_string (rs @ [r]))"
  using smtp_session.send_Ok[OF assms] by blast

theorem send_wire_exact_witness:
  "\<exists>t'. send True nom_ref script_ops read_ref (sample_email ''hi'')
      (sample_transport {Pipelining} True (replicate 4 (reply_string accepted))) = Some (Ok accepted, t') \<and>
    written (transport_stream t') = ''MAIL FROM:<a@x.org>'' @ crlf @ ''RCPT TO:<b@y.org>'' @ crlf @
      ''DATA'' @ crlf @ ''hi'' @ crlf @ ''.'' @ crlf"
proof -
  obtain t' where t': "send True nom_ref script_ops read_ref (sample_email ''hi'')
      (sample_transport {Pipelining} True (replicate 4 (reply_string accepted))) = Some (Ok accepted, t')"
    using scripted_send by blast
  from send_wire_exact[OF script_session.smtp_session_axioms _ _ this, of "''hi''"] t'
  show ?thesis
    by (simp add: sample_lines body_text_def esc_def data_end_def)
qed

text \<open>
  C3: nothing of the body is written unless every line of the transaction has got a positive reply
  of its own, in both modes: a failing \<open>send\<close> has either written a prefix of the lines, or all of
  them and a prefix of the body after reading as many positive replies.
\<close>

theorem send_body_guarded:
  assumes "smtp_session W sent received N" and "countable_envelope (email_envelope email)"
    and "read_to_end R (message_poll_read R) (email_message email) = Some (Inr m)"
    and "send oc N W R email t = Some (Err e, t')"
  shows "send_progress (envelope_lines (mail_options t) (email_envelope email)) (body_text m)
    (sent (transport_stream t)) (sent (transport_stream t'))
    (received (transport_stream t)) (received (transport_stream t'))"
  using smtp_session.send_Err_progress[OF assms] .

definition rejected :: response where
  "rejected = \<lparr>code = code_new PermanentNegativeCompletion MailSystem Zero, message = [''no'']\<rparr>"

lemma rejected_reply:
  "reply_string rejected = ''550 no'' @ crlf" "readable rejected" "\<not> is_positive rejected"
  "error_from_response rejected = Permanent rejected"
proof -
  show 1: "reply_string rejected = ''550 no'' @ crlf"
    by (simp add: rejected_def code_new_def reply_string_def raw_reply_def
      reply_text_def code_fmt_def severity_fmt_def category_fmt_def detail_fmt_def digit_fmt_simps)
  have wf: "wf_response rejected" by (simp add: wf_response_def rejected_def)
  then show "readable rejected"
    unfolding readable_def 1 by (intro conjI utf8_valid_ascii) (simp_all add: is_ascii_def)
  show "\<not> is_positive rejected" "error_from_response rejected = Permanent rejected"
    by (simp_all add: rejected_def code_new_def is_positive_def error_from_response_def)
qed

lemma scripted_rejection:
  "\<exists>t'. send oc nom_ref script_ops read_ref (sample_email m) (sample_transport fs pipe
      (map reply_string [accepted, rejected, accepted])) = Some (Err (Permanent rejected), t') \<and>
    inbox (transport_stream t') = (if Pipelining \<in> fs \<and> pipe then reply_string accepted else [])"
proof -
  let ?rs = "[accepted, rejected, accepted]"
  let ?t = "sample_transport fs pipe (map reply_string ?rs)"
  have after: "after_negative ?rs = [accepted]" "first_negative ?rs = Err (Permanent rejected)"
    using accepted_reply(3) rejected_reply by simp_all
  have "\<exists>t' e. first_negative ?rs = Err e \<and> send oc nom_ref script_ops read_ref (sample_email m) ?t = Some (Err e, t') \<and>
    inbox (transport_stream t') = (if use_pipelining ?t then replies_string (after_negative ?rs) else []) \<and>
    reactions (transport_stream t') =
      (if use_pipelining ?t then [] else map reply_string (after_negative ?rs) @ [])"
    by (rule script_session.send_live_negative)
      (use accepted_reply(2) rejected_reply(2,3) in simp_all)
  then show ?thesis unfolding after by auto
qed

theorem send_body_guarded_witness:
  "\<exists>t'. send True nom_ref script_ops read_ref (sample_email ''hi'') (sample_transport {} True
      (map reply_string [accepted, rejected, accepted])) = Some (Err (Permanent rejected), t') \<and>
    send_progress (envelope_lines [] sample_envelope) (body_text ''hi'') [] (written (transport_stream t'))
      [] (got (transport_stream t'))"
proof -
  obtain t' where t': "send True nom_ref script_ops read_ref (sample_email ''hi'') (sample_transport {} True
      (map reply_string [accepted, rejected, accepted])) = Some (Err (Permanent rejected), t')"
    using scripted_rejection[where m = "''hi''" and fs = "{}" and pipe = True] by auto
  from send_body_guarded[OF script_session.smtp_session_axioms _ _ this, of "''hi''"] t'
  show ?thesis by simp
qed

text \<open>
  C12: without pipelining the commands go in lockstep: whatever the outcome, each command on the wire
  was written after a positive reply to every command before it had been read.
\<close>

theorem sequential_lockstep:
  assumes "smtp_session W sent received N" and "send_sequential N W opts e s = Some (o1, s')"
  shows "\<exists>rs q. (\<forall>r \<in> set rs. positive_reply r) \<and> length rs \<le> length (envelope_lines opts e) \<and>
    sent s' = sent s @ lines_text (take (length rs) (envelope_lines opts e)) @ q \<and>
    prefix q (lines_text (take 1 (drop (length rs) (envelope_lines opts e)))) \<and>
    prefix (received s @ replies_string rs) (received s')"
  using smtp_session.run_commands_lockstep[OF assms(1) assms(2)[unfolded send_sequential_run]] .

theorem sequential_lockstep_witness:
  "\<exists>o1 s' rs q. send_sequential nom_ref script_ops [] sample_envelope
      (connect [] (map reply_string [accepted, rejected, accepted])) = Some (o1, s') \<and>
    length rs \<le> 3 \<and> written s' = lines_text (take (length rs) (envelope_lines [] sample_envelope)) @ q \<and>
    prefix (replies_string rs) (got s')"
proof -
  let ?s = "connect [] (map reply_string [accepted, rejected, accepted])"
  obtain o1 s' where run: "send_sequential nom_ref script_ops [] sample_envelope ?s = Some (o1, s')"
    using script_session.yields_run_commands[of "[accepted, rejected, accepted]" "envelope_lines [] sample_envelope" ?s "[]"]
      accepted_reply(2) rejected_reply(2)
    by (auto simp: send_sequential_run script_session.yields_def)
  from sequential_lockstep[OF script_session.smtp_session_axioms run] run
  show ?thesis by (auto simp: numeral_3_eq_3)
qed

text \<open>
  C9: \<open>send\<close> returns when the peer answers every line and the body positively, in both modes,
  with the outcome the reply to the body stands for, and no reply is left unread.
\<close>

theorem send_returns:
  assumes "live_session W sent received N pending answers"
    and "countable_envelope (email_envelope email)"
    and "read_to_end R (message_poll_read R) (email_message email) = Some (Inr m)"
    and "length rs = length (forward_path (email_envelope email)) + 2"
    and "\<forall>x \<in> set (rs @ [r]). readable x" and "\<forall>x \<in> set rs. is_positive x"
    and "pending (transport_stream t) = []"
    and "answers (transport_stream t) = map reply_string (rs @ [r])"
  shows "\<exists>t'. send oc N W R email t = Some (reply_result r, t') \<and> pending (transport_stream t') = []"
  using live_session.send_live_positive[OF assms(1-7), of "[]"] assms(8) by auto

theorem send_returns_witness:
  "\<exists>t'. send True nom_ref script_ops read_ref (sample_email ''hi'')
      (sample_transport {} True (map reply_string (replicate 3 accepted @ [rejected]))) =
      Some (reply_result rejected, t') \<and> inbox (transport_stream t') = []"
  by (rule send_returns[OF script_session.live_session_axioms, where m = "''hi''" and rs = "replicate 3 accepted"])
    (use accepted_reply rejected_reply in auto)

text \<open>
  C10: pipelining does not change the outcome: with the same peer, two transports that differ in the
  mode they send in return the same, be it the final response or the first negative reply.
\<close>

theorem pipelining_same_outcome:
  assumes "live_session W sent received N pending answers"
    and "countable_envelope (email_envelope email)"
    and "read_to_end R (message_poll_read R) (email_message email) = Some (Inr m)"
    and "length rs = length (forward_path (email_envelope email)) + 2"
    and "\<forall>x \<in> set (rs @ [r]). readable x"
    and "pending (transport_stream t) = []"
    and "answers (transport_stream t) = map reply_string (rs @ [r])"
    and "transport_stream u = transport_stream t"
  shows "\<exists>o1 t' u'. send oc N W R email t = Some (o1, t') \<and> send oc N W R email u = Some (o1, u') \<and> o1 \<noteq> Panic"
proof (cases "\<forall>x \<in> set rs. is_positive x")
  case True
  have "reply_result r \<noteq> Panic" by (simp add: reply_result_def)
  moreover have "\<exists>v'. send oc N W R email v = Some (reply_result r, v')"
    if "transport_stream v = transport_stream t" for v
    using live_session.send_live_positive[OF assms(1-5) True, of v "[]"] assms(6,7) that by auto
  ultimately show ?thesis using assms(8) by metis
next
  case False
  have rs: "\<forall>x \<in> set rs. readable x" using assms(5) by simp
  have a: "answers (transport_stream t) = map reply_string rs @ [reply_string r]" using assms(7) by simp
  note neg = live_session.send_live_negative[OF assms(1,2,4) rs False, of _ "[reply_string r]" oc R]
  from neg[of t] neg[of u] assms(6,8) a show ?thesis by fastforce
qed

theorem pipelining_same_outcome_witness:
  "\<exists>o1 t' u'. send True nom_ref script_ops read_ref (sample_email ''hi'') (sample_transport {Pipelining} True
      (map reply_string ([accepted, rejected, accepted] @ [accepted]))) = Some (o1, t') \<and>
    send True nom_ref script_ops read_ref (sample_email ''hi'') (sample_transport {Pipelining} False
      (map reply_string ([accepted, rejected, accepted] @ [accepted]))) = Some (o1, u') \<and> o1 \<noteq> Panic"
  by (rule pipelining_same_outcome[OF script_session.live_session_axioms, where m = "''hi''"
        and rs = "[accepted, rejected, accepted]" and r = accepted])
    (use accepted_reply rejected_reply in auto)

text \<open>
  C8: it changes what is left on the connection: when a reply is negative, a pipelined \<open>send\<close>
  returns at once and leaves the replies to the later commands, the one to DATA among them, unread,
  where the next operation will take them for its own.
\<close>

theorem pipelined_leaves_replies:
  assumes "live_session W sent received N pending answers"
    and "countable_envelope (email_envelope email)" and "use_pipelining t"
    and "length rs = length (forward_path (email_envelope email)) + 2"
    and "\<forall>x \<in> set (rs @ [r]). readable x"
    and "is_positive r" and "\<exists>x \<in> set rs. \<not> is_positive x"
    and "pending (transport_stream t) = []"
    and "answers (transport_stream t) = map reply_string (rs @ [r])"
  shows "\<exists>e t'. send oc N W R email t = Some (Err e, t') \<and>
    pending (transport_stream t') = replies_string (after_negative rs) \<and>
    (is_positive (last rs) \<longrightarrow> suffix (reply_string (last rs)) (pending (transport_stream t')))"
proof -
  have rs: "\<forall>x \<in> set rs. readable x" using assms(5) by simp
  have neg: "\<not> (\<forall>x \<in> set rs. is_positive x)" using assms(7) by blast
  have a: "answers (transport_stream t) = map reply_string rs @ [reply_string r]" using assms(9) by simp
  have "is_positive (last rs) \<Longrightarrow> suffix (reply_string (last rs)) (replies_string (after_negative rs))"
    using after_negative_last neg by blast
  with live_session.send_live_negative[OF assms(1,2,4) rs neg assms(8) a, of oc R] assms(3)
  show ?thesis by fastforce
qed

theorem pipelined_leaves_replies_witness:
  "\<exists>e t'. send True nom_ref script_ops read_ref (sample_email ''hi'') (sample_transport {Pipelining} True
      (map reply_string ([accepted, rejected, accepted] @ [accepted]))) = Some (Err e, t') \<and>
    inbox (transport_stream t') = replies_string (after_negative [accepted, rejected, accepted]) \<and>
    (is_positive (last [accepted, rejected, accepted]) \<longrightarrow>
      suffix (reply_string (last [accepted, rejected, accepted])) (inbox (transport_stream t')))"
  by (rule pipelined_leaves_replies[OF script_session.live_session_axioms])
    (use accepted_reply rejected_reply in auto)

text \<open>
  C15: a successful \<open>auth\<close> has sent the AUTH command of the mechanism and one answer to each
  challenge, in order, each made from the challenge it follows; it has read at most ten replies, all
  positive, all but the last challenges (334), and its result is the last one, which is not a
  challenge.
\<close>

theorem auth_exchange:
  assumes "smtp_session W sent received N" and "auth N W B m c t = Some (Ok r, t')"
  shows "\<exists>cmd rs ts. auth_new m c None = Inr cmd \<and>
    sent (transport_stream t') = sent (transport_stream t) @ auth_fmt B cmd @ concat ts \<and>
    received (transport_stream t') = received (transport_stream t) @ replies_string rs \<and>
    rs \<noteq> [] \<and> length rs \<le> 10 \<and> list_all2 (answer_text B m c) (butlast rs) ts \<and> last rs = r \<and>
    (\<forall>x \<in> set rs. positive_reply x) \<and> \<not> has_code r 334"
  using smtp_session.auth_Ok[OF assms] .

definition login_credentials :: credentials where
  "login_credentials = credentials_new ''user'' ''pw''"

definition login_answers_to :: "string list \<Rightarrow> byte list list" where
  "login_answers_to chs =
     map (\<lambda>x. reply_string (challenge_response base64_ref x)) chs @ [reply_string accepted]"

lemma accepted_no_challenge: "\<not> has_code accepted 334"
  by (simp add: has_code_iff accepted_def code_new_def code_number_def)

lemma scripted_login:
  assumes "list_all2 (login_answers login_credentials) chs as" and "chs \<noteq> []" and "length chs \<le> 10"
  shows "\<exists>t'. auth nom_ref script_ops base64_ref Login login_credentials
      (sample_transport {Authentication Login} True (login_answers_to chs)) =
      Some (if length chs = 10 then Err (ResponseParsing ''Unexpected number of challenges'') else Ok accepted, t')"
  using script_session.auth_login_live[OF b64_ref.base64_api_axioms accepted_reply(2,3)
      accepted_no_challenge assms, of "sample_transport {Authentication Login} True (login_answers_to chs)" "[]"]
  by (auto simp: login_answers_to_def)

lemma login_two:
  "list_all2 (login_answers login_credentials) [''Username:'', ''Password:''] [''user'', ''pw'']"
  by (simp add: login_answers_def login_credentials_def credentials_new_def)

theorem auth_exchange_witness:
  "\<exists>t'. auth nom_ref script_ops base64_ref Login login_credentials
      (sample_transport {Authentication Login} True (login_answers_to [''Username:'', ''Password:''])) =
      Some (Ok accepted, t') \<and>
    (\<exists>cmd rs ts. auth_new Login login_credentials None = Inr cmd \<and>
       written (transport_stream t') = auth_fmt base64_ref cmd @ concat ts \<and>
       length rs \<le> 10 \<and> last rs = accepted \<and> got (transport_stream t') = replies_string rs)"
proof -
  obtain t' where t': "auth nom_ref script_ops base64_ref Login login_credentials
      (sample_transport {Authentication Login} True (login_answers_to [''Username:'', ''Password:''])) =
      Some (Ok accepted, t')" using scripted_login[OF login_two] by auto
  from auth_exchange[OF script_session.smtp_session_axioms this] t' show ?thesis by auto
qed

text \<open>
  C16: LOGIN succeeds with a peer that asks for the user name and the password in any known wording:
  the client sends AUTH LOGIN and then each answer in base64, and returns the final reply; but when
  the peer has asked ten times, it returns an error although the final reply is positive.
\<close>

theorem login_exchange:
  assumes "live_session W sent received N pending answers" and "base64_api B"
    and "readable r" and "is_positive r" and "\<not> has_code r 334"
    and "list_all2 (login_answers c) chs as" and "chs \<noteq> []" and "length chs \<le> 10"
    and "pending (transport_stream t) = []"
    and "answers (transport_stream t) =
      map (\<lambda>x. reply_string (challenge_response B x)) chs @ [reply_string r]"
  shows "\<exists>t'. auth N W B Login c t =
      Some (if length chs = 10 then Err (ResponseParsing ''Unexpected number of challenges'') else Ok r, t') \<and>
    sent (transport_stream t') = sent (transport_stream t) @ ''AUTH LOGIN'' @ crlf @
      lines_text (map (b64_encode B) as) \<and> pending (transport_stream t') = []"
  using live_session.auth_login_live[OF assms(1-9), of "[]"] assms(10) by blast

theorem login_exchange_witness:
  "\<exists>t'. auth nom_ref script_ops base64_ref Login login_credentials
      (sample_transport {Authentication Login} True (login_answers_to (replicate 10 ''Username:''))) =
      Some (Err (ResponseParsing ''Unexpected number of challenges''), t') \<and>
    written (transport_stream t') = ''AUTH LOGIN'' @ crlf @
      lines_text (map (b64_encode base64_ref) (replicate 10 ''user''))"
proof -
  have "list_all2 (login_answers login_credentials) (replicate 10 ''Username:'') (replicate 10 ''user'')"
    by (simp add: list_all2_conv_all_nth login_answers_def login_credentials_def credentials_new_def)
  from login_exchange[OF script_session.live_session_axioms b64_ref.base64_api_axioms accepted_reply(2,3)
      accepted_no_challenge this, of "sample_transport {Authentication Login} True (login_answers_to (replicate 10 ''Username:''))"]
  show ?thesis by (auto simp: login_answers_to_def)
qed

text \<open>
  C40: PLAIN and XOAUTH2 take one exchange with a peer that answers: \<open>auth\<close> writes the AUTH command with the initial response
  in base64 and reads one reply. A final positive reply is its result, a negative one the error made
  from it; if the server answers with a challenge (334), which is how XOAUTH2 servers report a
  failure, \<open>auth\<close> returns the error of answering it and writes nothing more.
\<close>

theorem auth_initial_exchange:
  assumes "live_session W sent received N pending answers" and "supports_initial_response m"
    and "readable r" and "pending (transport_stream t) = []"
    and "answers (transport_stream t) = [reply_string r]"
  shows "\<exists>t' resp o1. mechanism_response m c None = Inr resp \<and> auth N W B m c t = Some (o1, t') \<and>
    sent (transport_stream t') = sent (transport_stream t) @
      ''AUTH '' @ mechanism_fmt m @ '' '' @ b64_encode B resp @ crlf \<and>
    pending (transport_stream t') = [] \<and>
    (if has_code r 334 then \<exists>e. auth_new_from_response B m c r = Inl e \<and> o1 = Err e
     else o1 = (if is_positive r then Ok r else Err (error_from_response r)))"
proof -
  have "answers (transport_stream t) = reply_string r # []" using assms(5) by simp
  from live_session.auth_initial_live[OF assms(1-4) this, of c B, unfolded reply_result_def]
  show ?thesis by blast
qed

theorem auth_initial_exchange_witness:
  "\<exists>t' resp. mechanism_response Plain login_credentials None = Inr resp \<and>
    auth nom_ref script_ops base64_ref Plain login_credentials
      (sample_transport {Authentication Plain} True [reply_string rejected]) =
      Some (Err (error_from_response rejected), t') \<and>
    written (transport_stream t') = ''AUTH PLAIN '' @ b64_encode base64_ref resp @ crlf"
proof -
  have "code_number (code rejected) = 550" by (simp add: rejected_def code_new_def code_number_def)
  then have "\<not> has_code rejected 334" by (simp add: has_code_iff)
  with auth_initial_exchange[OF script_session.live_session_axioms, of Plain rejected
      "sample_transport {Authentication Plain} True [reply_string rejected]" login_credentials base64_ref]
    rejected_reply(2,3)
  show ?thesis by auto
qed

text \<open>
  C17: \<open>starttls\<close> hands out the stream only when the server has announced STARTTLS and has
  answered the command positively, having written the command and consumed that one reply and
  nothing else. What the peer has sent behind the reply stays in the stream that is handed out.
\<close>

theorem starttls_boundary:
  assumes "smtp_session W sent received N" and "starttls N W t = Some (Ok s, t')"
  shows "StartTls \<in> features (transport_server t) \<and>
    sent s = sent (transport_stream t) @ ''STARTTLS'' @ crlf \<and>
    (\<exists>r. positive_reply r \<and> received s = received (transport_stream t) @ reply_string r)"
  using smtp_session.starttls_Ok[OF assms]
  by (auto simp: transport_supports_feature_def supports_feature_def)

theorem starttls_boundary_witness:
  "\<exists>s t'. starttls nom_ref script_ops (sample_transport {StartTls} True [reply_string accepted @ ''EVIL'']) =
      Some (Ok s, t') \<and> written s = ''STARTTLS'' @ crlf \<and> (\<exists>r. positive_reply r \<and> got s = reply_string r)"
proof -
  let ?t = "sample_transport {StartTls} True [reply_string accepted @ ''EVIL'']"
  have "script_session.yields (command nom_ref script_ops (Some (starttls_fmt StarttlsCommand)))
      (transport_stream ?t) (reply_result accepted) ''EVIL'' (drop 1 [reply_string accepted @ ''EVIL''])"
    using script_session.yields_command[OF accepted_reply(2), of "transport_stream ?t" "''EVIL''"] by simp
  then obtain s where "command nom_ref script_ops (Some (starttls_fmt StarttlsCommand)) (transport_stream ?t)
      = Some (Ok accepted, s)"
    by (auto simp: script_session.yields_def reply_result_def accepted_reply(3))
  then have run: "starttls nom_ref script_ops ?t = Some (Ok s, ?t\<lparr>transport_stream := s\<rparr>)"
    by (simp add: starttls_def transport_supports_feature_def supports_feature_def bind_action_def
        on_stream_def return_action_def into_inner_def)
  from starttls_boundary[OF script_session.smtp_session_axioms run] run show ?thesis by auto
qed

text \<open>
  C39: without the announcement \<open>starttls\<close> fails and touches nothing.
\<close>

theorem starttls_refused:
  assumes "StartTls \<notin> features (transport_server t)"
  shows "starttls N W t = Some (Err (Client ''server does not support STARTTLS''), t)"
  using assms by (simp add: starttls_def transport_supports_feature_def supports_feature_def
      fail_action_def error_from_str_def)

theorem starttls_refused_witness:
  "starttls nom_ref script_ops (sample_transport {Pipelining} True []) =
     Some (Err (Client ''server does not support STARTTLS''), sample_transport {Pipelining} True [])"
  by (rule starttls_refused) simp

text \<open>
  C18: \<open>SmtpTransport::new\<close> reads a greeting exactly when the configuration expects one, sends
  EHLO with the configured name and nothing else, and takes the server information from the
  positive reply to it.
\<close>

theorem transport_new_handshake:
  assumes "smtp_session W sent received N" and "transport_new N W builder s = Some (Ok t, s')"
  shows "transport_client t = builder \<and> transport_stream t = s' \<and>
    sent s' = sent s @ ''EHLO '' @ client_id_fmt (client_hello_name builder) @ crlf \<and>
    (\<exists>rs r. length rs = (if expect_greeting builder then 1 else 0) \<and>
      (\<forall>x \<in> set (rs @ [r]). positive_reply x) \<and>
      received s' = received s @ replies_string (rs @ [r]) \<and>
      from_response r = Inr (transport_server t))"
  using smtp_session.transport_new_Ok[OF assms] by blast

theorem transport_new_handshake_witness:
  "\<exists>t s'. transport_new nom_ref script_ops (without_greeting smtp_client_new) (connect [] [reply_string accepted]) =
      Some (Ok t, s') \<and> written s' = ''EHLO [127.0.0.1]'' @ crlf \<and> server_name (transport_server t) = ''OK''"
proof -
  let ?b = "without_greeting smtp_client_new" and ?s = "connect [] [reply_string accepted]"
  have ok: "split_whitespace ''OK'' = [''OK'']" by (rule split_whitespace_last_word) (simp_all add: graphic_def)
  then have fr: "from_response accepted = Inr \<lparr>server_name = ''OK'', features = {}\<rparr>"
    by (simp add: from_response_def first_word_def accepted_def line_features_def)
  obtain s' where "command nom_ref script_ops (Some (ehlo_fmt (ehlo_new (client_id_new
      (client_id_fmt (client_hello_name ?b)))))) ?s = Some (Ok accepted, s')"
    using script_session.command_live[OF accepted_reply(2,3), of ?s "[]"] by auto
  then have run: "transport_new nom_ref script_ops ?b ?s = Some (Ok \<lparr>transport_server =
      \<lparr>server_name = ''OK'', features = {}\<rparr>, transport_client = ?b, transport_stream = s'\<rparr>, s')"
    by (simp add: transport_new_def stream_new_def read_greeting_def without_greeting_def ehlo_def
        lift_result_def fr bind_action_def return_action_def)
  have "client_id_fmt (client_hello_name ?b) = ''[127.0.0.1]''"
    by (simp add: without_greeting_def smtp_client_new_def client_id_default_def
        dec_string.simps digit_char_def char_of_def bit_0 bit_iff_odd)
  with transport_new_handshake[OF script_session.smtp_session_axioms run] run show ?thesis by auto
qed

end
