(* ===== verification/Smtp_Session.thy ===== *)
theory Smtp_Session
  imports Smtp_Client
begin

text \<open>
  Whole sessions: the peer's reading of what the client sends, and sequences of calls of
  \<open>send\<close> on one transport. The peer is a receiver as in RFC 5321: it takes command lines up to
  their CRLF, and after \<open>DATA\<close> the data of a message up to its end mark.
\<close>

section \<open>The peer\<close>

datatype peer_event = CommandLine string | MailData "byte list"

fun split_line :: "byte list \<Rightarrow> (string \<times> byte list) option" where
  "split_line (a # b # r) =
     (if a = CR \<and> b = LF then Some ([], r) else map_option (\<lambda>(l, q). (a # l, q)) (split_line (b # r)))"
| "split_line _ = None"

lemma split_line_shorter: "split_line bs = Some (l, r) \<Longrightarrow> length r < length bs"
  by (induction bs arbitrary: l rule: split_line.induct) (fastforce split: if_splits)+

lemma split_line_line: "\<not> has_crlf l \<Longrightarrow> split_line (l @ CR # LF # r) = Some (l, r)"
proof (induction l)
  case (Cons a l)
  then have "split_line (l @ CR # LF # r) = Some (l, r)" by (cases l) auto
  with Cons.prems show ?case by (cases l) auto
qed simp

lemma receive_acc_shorter: "receive_acc acc bs = Some (m, q) \<Longrightarrow> length q < length bs"
  by (induction acc bs arbitrary: m rule: receive_acc.induct) (fastforce split: if_splits)+

lemma receive_data_shorter: "receive_data bs = Some (m, q) \<Longrightarrow> length q < length bs"
  unfolding receive_data_def by (rule receive_acc_shorter)

function peer :: "byte list \<Rightarrow> peer_event list" where
  "peer bs = (case split_line bs of
      None \<Rightarrow> []
    | Some (l, r) \<Rightarrow>
        CommandLine l #
          (if l = ''DATA''
           then (case receive_data r of None \<Rightarrow> [] | Some (m, q) \<Rightarrow> MailData m # peer q)
           else peer r))"
  by auto
termination
  by (relation "measure length") (auto dest!: split_line_shorter receive_data_shorter)

declare peer.simps [simp del]

lemma peer_Nil [simp]: "peer [] = []"
  by (simp add: peer.simps)

lemma peer_line:
  "one_line l \<Longrightarrow> l \<noteq> ''DATA'' \<Longrightarrow> peer (l @ CR # LF # r) = CommandLine l # peer r"
  by (subst peer.simps) (simp add: split_line_line one_line_no_crlf)

lemma peer_data:
  "receive_data r = Some (m, q) \<Longrightarrow>
   peer (''DATA'' @ CR # LF # r) = CommandLine ''DATA'' # MailData m # peer q"
  using split_line_line[of "''DATA''" r] by (subst peer.simps) simp

lemma peer_lines:
  "\<forall>l \<in> set ls. one_line l \<and> l \<noteq> ''DATA'' \<Longrightarrow> peer (lines_text ls @ r) = map CommandLine ls @ peer r"
  by (induction ls) (simp_all add: peer_line)

section \<open>A mail as the peer sees it\<close>

definition mail_events :: "mail_parameter list \<Rightarrow> envelope \<Rightarrow> byte list \<Rightarrow> peer_event list" where
  "mail_events opts e m = map CommandLine (envelope_lines opts e) @ [MailData (m @ crlf)]"

lemma envelope_line_not_data: "mail_line opts a \<noteq> ''DATA''" "rcpt_line b \<noteq> ''DATA''"
  by (simp_all add: mail_line_def rcpt_line_def)

lemma peer_mail:
  assumes "envelope_ok e" and "plain_message m" and "m \<noteq> []"
  shows "peer (lines_text (envelope_lines (mail_options t) e) @ body_text m @ r) =
    mail_events (mail_options t) e m @ peer r"
proof -
  let ?ls = "mail_line (mail_options t) (reverse_path e) # map rcpt_line (forward_path e)"
  have ls: "envelope_lines (mail_options t) e = ?ls @ [''DATA'']" by (simp add: envelope_lines_def)
  then have "\<forall>l \<in> set ?ls. one_line l \<and> l \<noteq> ''DATA''"
    using envelope_lines_one_line[OF assms(1), of t] envelope_line_not_data by auto
  moreover have "receive_data (body_text m @ r) = Some (m @ crlf, r)"
    using codec_body.transparent[OF assms(2)] assms(3) by (simp add: body_text_def)
  ultimately show ?thesis
    using peer_lines[of ?ls "''DATA'' @ crlf @ body_text m @ r"] peer_data[of "body_text m @ r"]
    by (simp add: ls mail_events_def)
qed

text \<open>
  After an empty message the second end mark is read as two command lines.
\<close>

lemma peer_empty_mail:
  assumes "envelope_ok e"
  shows "peer (lines_text (envelope_lines (mail_options t) e) @ body_text [] @ r) =
    mail_events (mail_options t) e [] @ [CommandLine [], CommandLine ''.''] @ peer r"
proof -
  let ?ls = "mail_line (mail_options t) (reverse_path e) # map rcpt_line (forward_path e)"
  have ls: "envelope_lines (mail_options t) e = ?ls @ [''DATA'']" by (simp add: envelope_lines_def)
  then have "\<forall>l \<in> set ?ls. one_line l \<and> l \<noteq> ''DATA''"
    using envelope_lines_one_line[OF assms, of t] envelope_line_not_data by auto
  moreover have body: "body_text [] @ r = data_end @ data_end @ r"
    by (simp add: body_text_def end_mark_def data_end_def)
  have "receive_data (body_text [] @ r) = Some (crlf, data_end @ r)"
    using receive_stuffed[of "[]" 0 "data_end @ r"] unfolding body by simp
  moreover have "peer (data_end @ r) = [CommandLine [], CommandLine ''.''] @ peer r"
    using peer_lines[of "[[], ''.'']" r] by (simp add: data_end_def)
  ultimately show ?thesis
    using peer_lines[of ?ls "''DATA'' @ crlf @ body_text [] @ r"] peer_data[of "body_text [] @ r"]
    by (simp add: ls mail_events_def)
qed

section \<open>Sequences of mails\<close>

text \<open>
  \<open>sends oc N W R t mails t'\<close>: sending the mails one after the other succeeds and takes the
  transport from \<open>t\<close> to \<open>t'\<close>.
\<close>

inductive sends :: "bool \<Rightarrow> nom_lib \<Rightarrow> 's stream_ops \<Rightarrow> 'r read_lib \<Rightarrow> 's transport \<Rightarrow>
    (envelope \<times> byte list) list \<Rightarrow> 's transport \<Rightarrow> bool" for oc N W R where
  sends_none: "sends oc N W R t [] t"
| sends_mail: "send oc N W R (sendable_email_new e m) t = Some (Ok r, t1) \<Longrightarrow>
     sends oc N W R t1 mails t' \<Longrightarrow> sends oc N W R t ((e, m) # mails) t'"

inductive_cases sends_ConsE: "sends oc N W R t (mail # mails) t'"
inductive_simps sends_Nil [simp]: "sends oc N W R t [] t'"

lemma sends_append:
  "sends oc N W R t xs t1 \<Longrightarrow> sends oc N W R t1 ys t' \<Longrightarrow> sends oc N W R t (xs @ ys) t'"
  by (induction rule: sends.induct) (auto intro: sends_mail)

text \<open>No operation changes what the transport knows about the server and the client.\<close>

lemma send_keeps:
  assumes "send oc N W R email t = Some (o1, t')"
  shows "transport_server t' = transport_server t \<and> transport_client t' = transport_client t"
  using assms by (auto simp: send_def on_stream_Some bind_action_def
      split: option.splits outcome.splits if_splits)

lemma mail_options_cong:
  "transport_server t' = transport_server t \<and> transport_client t' = transport_client t \<Longrightarrow>
   mail_options t' = mail_options t"
  by (simp add: mail_options_def transport_supports_feature_def)

lemma sends_keeps:
  "sends oc N W R t mails t' \<Longrightarrow>
   transport_server t' = transport_server t \<and> transport_client t' = transport_client t"
  by (induction rule: sends.induct) (auto dest: send_keeps)

definition mail_text :: "mail_parameter list \<Rightarrow> envelope \<times> byte list \<Rightarrow> byte list" where
  "mail_text opts mail = lines_text (envelope_lines opts (fst mail)) @ body_text (snd mail)"

lemma mail_text_pair [simp]:
  "mail_text opts (e, m) = lines_text (envelope_lines opts e) @ body_text m"
  by (simp add: mail_text_def)

definition good_mail :: "envelope \<times> byte list \<Rightarrow> bool" where
  "good_mail mail \<longleftrightarrow> envelope_ok (fst mail) \<and> countable_envelope (fst mail) \<and>
     plain_message (snd mail) \<and> snd mail \<noteq> []"

lemma peer_mails:
  "\<forall>mail \<in> set mails. good_mail mail \<Longrightarrow>
   peer (concat (map (mail_text (mail_options t)) mails) @ r) =
     concat (map (\<lambda>(e, m). mail_events (mail_options t) e m) mails) @ peer r"
  by (induction mails) (auto simp: good_mail_def peer_mail)

text \<open>The wire after a sequence of mails: the texts in order, and a reply to every command.\<close>

locale mail_session = smtp_session W sent received N + read_api R
  for W :: "'s stream_ops" and sent received N and R :: "'r read_lib"
begin

lemma sends_wire:
  assumes "sends oc N W R t mails t'" and "\<forall>mail \<in> set mails. countable_envelope (fst mail)"
  shows "sent (transport_stream t') =
      sent (transport_stream t) @ concat (map (mail_text (mail_options t)) mails)"
    and "\<exists>rs. length rs = (\<Sum>mail \<leftarrow> mails. length (forward_path (fst mail)) + 3) \<and>
      (\<forall>r \<in> set rs. positive_reply r) \<and>
      received (transport_stream t') = received (transport_stream t) @ replies_string rs"
proof -
  have "sent (transport_stream t') =
      sent (transport_stream t) @ concat (map (mail_text (mail_options t)) mails) \<and>
    (\<exists>rs. length rs = (\<Sum>mail \<leftarrow> mails. length (forward_path (fst mail)) + 3) \<and>
      (\<forall>r \<in> set rs. positive_reply r) \<and>
      received (transport_stream t') = received (transport_stream t) @ replies_string rs)"
    using assms
  proof (induction rule: sends.induct)
    case (sends_none t)
    then show ?case by simp
  next
    case (sends_mail e m t r t1 mails t')
    let ?email = "sendable_email_new e m :: 'r sendable_email"
    have c: "countable_envelope (email_envelope ?email)" "email_envelope ?email = e"
      using sends_mail.prems by (simp_all add: sendable_email_new_def)
    note first = send_Ok[OF c(1) read_to_end_bytes sends_mail.hyps(1), unfolded c(2)]
    have opts: "mail_options t1 = mail_options t"
      using send_keeps[OF sends_mail.hyps(1)] by (rule mail_options_cong)
    obtain rs1 where rs1: "length rs1 = length (forward_path e) + 2"
      "\<forall>x \<in> set (rs1 @ [r]). positive_reply x"
      "received (transport_stream t1) = received (transport_stream t) @ replies_string (rs1 @ [r])"
      using first(2) by blast
    obtain rs2 where rs2: "length rs2 = (\<Sum>mail \<leftarrow> mails. length (forward_path (fst mail)) + 3)"
      "\<forall>r \<in> set rs2. positive_reply r"
      "received (transport_stream t') = received (transport_stream t1) @ replies_string rs2"
      using sends_mail by auto
    have "sent (transport_stream t') =
        sent (transport_stream t1) @ concat (map (mail_text (mail_options t)) mails)"
      using sends_mail opts by simp
    with first(1) rs1 rs2 show ?case
      by (intro conjI exI[of _ "(rs1 @ [r]) @ rs2"]) auto
  qed
  then show "sent (transport_stream t') =
      sent (transport_stream t) @ concat (map (mail_text (mail_options t)) mails)"
    and "\<exists>rs. length rs = (\<Sum>mail \<leftarrow> mails. length (forward_path (fst mail)) + 3) \<and>
      (\<forall>r \<in> set rs. positive_reply r) \<and>
      received (transport_stream t') = received (transport_stream t) @ replies_string rs"
    by blast+
qed

end

interpretation script_mail: mail_session script_ops written got nom_ref read_ref
  by unfold_locales

section \<open>Any use of a transport\<close>

text \<open>
  A caller holds the transport by a mutable reference and may go on after an error. \<open>trace\<close> is
  any sequence of the operations on one transport, each with its outcome, good or bad.
\<close>

datatype 'r operation =
  OpAuth mechanism credentials
| OpTryLogin credentials "mechanism list"
| OpSend "'r sendable_email"
| OpQuit

fun run_operation :: "bool \<Rightarrow> nom_lib \<Rightarrow> 's stream_ops \<Rightarrow> 'r read_lib \<Rightarrow> base64_lib \<Rightarrow> 'r operation
    \<Rightarrow> ('s transport, unit) action" where
  "run_operation oc N W R B (OpAuth m c) = bind_action (auth N W B m c) (\<lambda>_. return_action ())"
| "run_operation oc N W R B (OpTryLogin c ms) = try_login N W B c ms"
| "run_operation oc N W R B (OpSend email) = bind_action (send oc N W R email) (\<lambda>_. return_action ())"
| "run_operation oc N W R B OpQuit = quit N W"

inductive trace :: "bool \<Rightarrow> nom_lib \<Rightarrow> 's stream_ops \<Rightarrow> 'r read_lib \<Rightarrow> base64_lib \<Rightarrow> 's transport \<Rightarrow>
    ('r operation \<times> unit outcome) list \<Rightarrow> 's transport \<Rightarrow> bool" for oc N W R B where
  trace_start: "trace oc N W R B t [] t"
| trace_step: "run_operation oc N W R B op t = Some (o1, t1) \<Longrightarrow> trace oc N W R B t1 ops t' \<Longrightarrow>
     trace oc N W R B t ((op, o1) # ops) t'"

inductive_cases trace_ConsE: "trace oc N W R B t (step # ops) t'"
inductive_simps trace_Nil [simp]: "trace oc N W R B t [] t'"

lemma trace_deterministic:
  "trace oc N W R B t ops t' \<Longrightarrow> trace oc N W R B t ops' t'' \<Longrightarrow> map fst ops = map fst ops' \<Longrightarrow>
   ops = ops' \<and> t' = t''"
proof (induction arbitrary: ops' rule: trace.induct)
  case (trace_step op t o1 t1 ops t')
  obtain o2 ops2 where ops': "ops' = (op, o2) # ops2" using trace_step.prems(2) by (cases ops') auto
  with trace_step.prems(1) obtain t2 where t2: "run_operation oc N W R B op t = Some (o2, t2)"
    "trace oc N W R B t2 ops2 t''" by (auto elim: trace_ConsE)
  have eq: "o2 = o1" "t2 = t1" using t2(1) trace_step.hyps(1) by simp_all
  have "map fst ops = map fst ops2" using trace_step.prems(2) ops' by simp
  with trace_step.IH[OF t2(2)[unfolded eq]] show ?case using ops' eq by simp
qed simp

fun operation_ok :: "'r operation \<Rightarrow> bool" where
  "operation_ok (OpSend email) = countable_envelope (email_envelope email)"
| "operation_ok _ = True"

text \<open>
  \<open>tame\<close>: whatever its outcome, an action does not panic, and what it has written and read is
  added to what was written and read before.
\<close>

context smtp_session
begin

definition tame :: "('s, 'a) action \<Rightarrow> bool" where
  "tame m \<longleftrightarrow> (\<forall>s o1 s'. m s = Some (o1, s') \<longrightarrow>
     o1 \<noteq> Panic \<and> prefix (sent s) (sent s') \<and> prefix (received s) (received s'))"

lemma tame_exchange: "exchange m T V \<Longrightarrow> tame m"
  unfolding exchange_def tame_def by (fastforce split: outcome.splits)

lemma tame_bind: "tame m \<Longrightarrow> (\<And>x. tame (f x)) \<Longrightarrow> tame (bind_action m f)"
  unfolding tame_def bind_action_def
  by (auto split: option.splits outcome.splits) (metis prefix_order.trans)+

lemma tame_simple: "tame (return_action x)" "tame (fail_action e)" "tame (lift_result q)"
  by (auto simp: tame_def return_action_def fail_action_def lift_result_def split: sum.splits)
    (cases q; simp)

lemma tame_command: "tame (command N W (Some t))"
  using exchange_command by (rule tame_exchange)

lemma tame_auth_loop: "tame (auth_loop N W B m c n r)"
  by (induction n arbitrary: r) (simp_all add: tame_simple tame_bind tame_command)

lemma tame_message: "tame (stream_message N W R msg)"
proof (cases "read_to_end R (message_poll_read R) msg")
  case None
  then show ?thesis by (simp add: tame_def message_read_error)
next
  case (Some result)
  show ?thesis
  proof (cases result)
    case (Inl e)
    then show ?thesis using Some by (simp add: tame_def message_read_error)
  next
    case (Inr bs)
    then show ?thesis using Some exchange_message by (blast intro: tame_exchange)
  qed
qed

lemma tame_transport:
  assumes "tame m" and "on_stream m t = Some (o1, t')"
  shows "o1 \<noteq> Panic" "prefix (sent (transport_stream t)) (sent (transport_stream t'))"
    "prefix (received (transport_stream t)) (received (transport_stream t'))"
    "transport_server t' = transport_server t" "transport_client t' = transport_client t"
  using assms by (auto simp: tame_def on_stream_Some)

lemma auth_tame: "\<exists>a. auth N W B m c = on_stream a \<and> tame a"
  unfolding auth_def
  by (intro exI conjI, rule refl)
    (intro tame_bind tame_simple tame_command tame_auth_loop, auto simp: tame_simple)

text \<open>
  Whatever its outcome, \<open>auth\<close> writes the AUTH command of its mechanism before anything else.
\<close>

lemma auth_progress:
  assumes "auth N W B m c t = Some (o1, t')"
  shows "\<exists>cmd bs. auth_new m c None = Inr cmd \<and>
    sent (transport_stream t') = sent (transport_stream t) @ bs \<and>
    (prefix bs (auth_fmt B cmd) \<or> prefix (auth_fmt B cmd) bs) \<and> o1 \<noteq> Panic \<and>
    transport_server t' = transport_server t \<and> transport_client t' = transport_client t"
proof -
  obtain cmd where cmd: "auth_new m c None = Inr cmd" using auth_opening_total by blast
  let ?cmd = "command N W (Some (auth_fmt B cmd))"
  let ?rest = "\<lambda>response. bind_action (auth_loop N W B m c 10 response) (\<lambda>(challenges, response).
      if challenges = 0
      then fail_action (ResponseParsing ''Unexpected number of challenges'')
      else return_action response)"
  have eq: "auth N W B m c = on_stream (bind_action ?cmd ?rest)"
    unfolding auth_def cmd lift_result_Inr ..
  have rest: "tame (?rest r)" for r
    by (intro tame_bind tame_auth_loop) (auto simp: tame_simple)
  obtain s' where run: "bind_action ?cmd ?rest (transport_stream t) = Some (o1, s')"
    and t': "t' = t\<lparr>transport_stream := s'\<rparr>"
    using assms unfolding eq on_stream_Some by blast
  have "o1 \<noteq> Panic" using tame_bind[OF tame_command rest] run by (simp add: tame_def)
  have "?cmd (transport_stream t) \<noteq> Some (Panic, s')" by (rule exchange_no_panic[OF exchange_command])
  then consider (stop) e where "?cmd (transport_stream t) = Some (Err e, s')"
    | (go) r s1 where "?cmd (transport_stream t) = Some (Ok r, s1)" "?rest r s1 = Some (o1, s')"
    using run unfolding bind_action_def[of ?cmd] by (auto split: option.splits outcome.splits)
  then obtain bs where "sent s' = sent (transport_stream t) @ bs"
    "prefix bs (auth_fmt B cmd) \<or> prefix (auth_fmt B cmd) bs"
  proof cases
    case stop
    then show thesis using that exchange_Err[OF exchange_command] by metis
  next
    case go
    then have "prefix (sent s1) (sent s')" using rest by (simp add: tame_def)
    with command_Ok(1)[OF go(1)] that show thesis by (auto simp: prefix_def)
  qed
  with cmd \<open>o1 \<noteq> Panic\<close> t' show ?thesis by auto
qed

lemma try_login_progress:
  assumes "try_login N W B c mechs t = Some (o1, t')"
  shows "((\<forall>m \<in> set mechs. Authentication m \<notin> features (transport_server t)) \<and> o1 = Ok () \<and> t' = t) \<or>
    (\<exists>pre m post cmd bs. mechs = pre @ m # post \<and> Authentication m \<in> features (transport_server t) \<and>
      (\<forall>x \<in> set pre. Authentication x \<notin> features (transport_server t)) \<and>
      auth_new m c None = Inr cmd \<and>
      sent (transport_stream t') = sent (transport_stream t) @ bs \<and>
      (prefix bs (auth_fmt B cmd) \<or> prefix (auth_fmt B cmd) bs) \<and>
      ((\<exists>r. o1 = Ok () \<and> auth N W B m c t = Some (Ok r, t')) \<or>
       (\<exists>e. o1 = Err e \<and> auth N W B m c t = Some (Err e, t'))))"
proof (cases "find (\<lambda>m. supports_auth_mechanism (transport_server t) m) mechs")
  case None
  then have "\<forall>m \<in> set mechs. Authentication m \<notin> features (transport_server t)"
    by (simp add: find_None_iff supports_auth_mechanism_def)
  then show ?thesis using assms None by (simp add: try_login_def return_action_def)
next
  case (Some m)
  obtain i where i: "i < length mechs" "mechs ! i = m" "Authentication m \<in> features (transport_server t)"
    "\<forall>j < i. Authentication (mechs ! j) \<notin> features (transport_server t)"
    using Some by (auto simp: find_Some_iff supports_auth_mechanism_def)
  have mechs: "mechs = take i mechs @ m # drop (Suc i) mechs" using i id_take_nth_drop by metis
  have pre: "\<forall>x \<in> set (take i mechs). Authentication x \<notin> features (transport_server t)"
    using i(1,4) by (auto simp: in_set_conv_nth)
  have run: "bind_action (auth N W B m c) (\<lambda>_. return_action ()) t = Some (o1, t')"
    using assms Some by (simp add: try_login_def)
  obtain o2 where o2: "auth N W B m c t = Some (o2, t')"
    "o1 = (case o2 of Ok r \<Rightarrow> Ok () | Err e \<Rightarrow> Err e | Panic \<Rightarrow> Panic)"
    using run by (auto simp: bind_action_def return_action_def split: option.splits outcome.splits)
  from auth_progress[OF o2(1)] obtain cmd bs where "auth_new m c None = Inr cmd"
    "sent (transport_stream t') = sent (transport_stream t) @ bs"
    "prefix bs (auth_fmt B cmd) \<or> prefix (auth_fmt B cmd) bs" "o2 \<noteq> Panic" by blast
  moreover have "(\<exists>r. o1 = Ok () \<and> auth N W B m c t = Some (Ok r, t')) \<or>
       (\<exists>e. o1 = Err e \<and> auth N W B m c t = Some (Err e, t'))"
    using o2 \<open>o2 \<noteq> Panic\<close> by (cases o2) auto
  ultimately show ?thesis using mechs i(3) pre by blast
qed

lemma run_operation_tame:
  assumes "operation_ok op"
  shows "\<exists>m. run_operation oc N W R B op t = on_stream m t \<and> tame m"
proof (cases op)
  case (OpAuth m c)
  obtain a where "auth N W B m c = on_stream a" "tame a" using auth_tame by blast
  then show ?thesis
    using OpAuth tame_bind[OF \<open>tame a\<close> tame_simple(1)]
    by (intro exI[of _ "bind_action a (\<lambda>_. return_action ())"]) (simp add: on_stream_bind on_stream_return)
next
  case (OpTryLogin c ms)
  show ?thesis
  proof (cases "find (\<lambda>m. supports_auth_mechanism (transport_server t) m) ms")
    case None
    then show ?thesis
      using OpTryLogin tame_simple(1)
      by (intro exI[of _ "return_action ()"]) (simp add: try_login_def on_stream_return)
  next
    case (Some m)
    obtain a where "auth N W B m c = on_stream a" "tame a" using auth_tame by blast
    then show ?thesis
      using OpTryLogin Some tame_bind[OF \<open>tame a\<close> tame_simple(1)]
      by (intro exI[of _ "bind_action a (\<lambda>_. return_action ())"])
        (simp add: try_login_def on_stream_bind on_stream_return)
  qed
next
  case (OpSend email)
  let ?a = "bind_action (send_envelope N W (use_pipelining t) (mail_options t) (email_envelope email))
    (\<lambda>_. stream_message N W R (email_message email))"
  have "tame ?a" by (rule tame_bind[OF tame_exchange[OF exchange_send_envelope] tame_message])
  moreover have "send oc N W R email t = on_stream ?a t"
    using assms OpSend by (intro send_stream) simp
  moreover have "run_operation oc N W R B op t = on_stream (bind_action ?a (\<lambda>_. return_action ())) t"
    using OpSend calculation(2) by (simp add: on_stream_bind on_stream_return bind_action_def)
  ultimately show ?thesis
    using tame_bind[OF \<open>tame ?a\<close> tame_simple(1)]
    by (intro exI[of _ "bind_action ?a (\<lambda>_. return_action ())"] conjI)
next
  case OpQuit
  then show ?thesis
    using tame_bind[OF tame_command tame_simple(1)]
    by (intro exI[of _ "bind_action (command N W (Some (quit_fmt QuitCommand))) (\<lambda>_. return_action ())"])
      (simp add: quit_def)
qed

lemma run_operation_keeps:
  assumes "operation_ok op" and "run_operation oc N W R B op t = Some (o1, t')"
  shows "o1 \<noteq> Panic" "prefix (sent (transport_stream t)) (sent (transport_stream t'))"
    "prefix (received (transport_stream t)) (received (transport_stream t'))"
    "transport_server t' = transport_server t" "transport_client t' = transport_client t"
proof -
  obtain m where m: "run_operation oc N W R B op t = on_stream m t" "tame m"
    using run_operation_tame[OF assms(1)] by blast
  note * = tame_transport[OF m(2) assms(2)[unfolded m(1)]]
  show "o1 \<noteq> Panic" "prefix (sent (transport_stream t)) (sent (transport_stream t'))"
    "prefix (received (transport_stream t)) (received (transport_stream t'))"
    "transport_server t' = transport_server t" "transport_client t' = transport_client t"
    by (rule *)+
qed

lemma trace_invariant:
  assumes "trace oc N W R B t ops t'" and "\<forall>(op, o1) \<in> set ops. operation_ok op"
  shows "(\<forall>(op, o1) \<in> set ops. o1 \<noteq> Panic) \<and>
    prefix (sent (transport_stream t)) (sent (transport_stream t')) \<and>
    prefix (received (transport_stream t)) (received (transport_stream t')) \<and>
    transport_server t' = transport_server t \<and> transport_client t' = transport_client t"
  using assms
proof (induction rule: trace.induct)
  case (trace_step op t o1 t1 ops t')
  have ok: "operation_ok op" using trace_step.prems by simp
  note step = run_operation_keeps[OF ok trace_step.hyps(1)]
  from trace_step show ?case
    using step prefix_order.trans[OF step(2)] prefix_order.trans[OF step(3)] by simp
qed auto

end

text \<open>
  C11: however the transport is used, with operations that succeed or fail in any order and mails of
  fewer than \<open>2 ^ 31 - 2\<close> recipients, no operation
  panics, no byte on the wire is taken back, and what the transport knows of the server and of its
  configuration is what it was connected with.
\<close>

theorem transport_invariant:
  assumes "smtp_session W sent received N" and "trace oc N W R B t ops t'"
    and "\<forall>(op, o1) \<in> set ops. operation_ok op"
  shows "(\<forall>(op, o1) \<in> set ops. o1 \<noteq> Panic) \<and>
    prefix (sent (transport_stream t)) (sent (transport_stream t')) \<and>
    prefix (received (transport_stream t)) (received (transport_stream t')) \<and>
    transport_server t' = transport_server t \<and> transport_client t' = transport_client t"
  using smtp_session.trace_invariant[OF assms] .

theorem transport_invariant_witness:
  "\<exists>t'. trace True nom_ref script_ops read_ref base64_ref (sample_transport {} True
      (map reply_string [accepted, rejected, accepted]))
      [(OpSend (sample_email ''hi''), Err (Permanent rejected))] t' \<and>
    transport_server t' = \<lparr>server_name = ''mx'', features = {}\<rparr>"
proof -
  obtain t' where "send True nom_ref script_ops read_ref (sample_email ''hi'') (sample_transport {} True
      (map reply_string [accepted, rejected, accepted])) = Some (Err (Permanent rejected), t')"
    using scripted_rejection[where m = "''hi''" and fs = "{}" and pipe = True] by auto
  then have tr: "trace True nom_ref script_ops read_ref base64_ref (sample_transport {} True
      (map reply_string [accepted, rejected, accepted]))
      [(OpSend (sample_email ''hi''), Err (Permanent rejected))] t'"
    by (intro trace_step[OF _ trace_start]) (simp add: bind_action_def)
  from transport_invariant[OF script_session.smtp_session_axioms tr] tr show ?thesis by auto
qed

text \<open>
  C25: \<open>try_login\<close>, whatever its outcome. If the server has announced none of the mechanisms the
  caller accepts, it succeeds at once and touches nothing. Otherwise it authenticates with the first
  accepted mechanism that is announced, and with no other: all it writes begins with that
  mechanism's AUTH command (or is a part of it, if the connection fails), and it succeeds or fails
  as \<open>auth\<close> does, without a panic.
\<close>

theorem try_login_outcomes:
  assumes "smtp_session W sent received N" and "try_login N W B c mechs t = Some (o1, t')"
  shows "((\<forall>m \<in> set mechs. Authentication m \<notin> features (transport_server t)) \<and> o1 = Ok () \<and> t' = t) \<or>
    (\<exists>pre m post cmd bs. mechs = pre @ m # post \<and> Authentication m \<in> features (transport_server t) \<and>
      (\<forall>x \<in> set pre. Authentication x \<notin> features (transport_server t)) \<and>
      auth_new m c None = Inr cmd \<and>
      sent (transport_stream t') = sent (transport_stream t) @ bs \<and>
      (prefix bs (auth_fmt B cmd) \<or> prefix (auth_fmt B cmd) bs) \<and>
      ((\<exists>r. o1 = Ok () \<and> auth N W B m c t = Some (Ok r, t')) \<or>
       (\<exists>e. o1 = Err e \<and> auth N W B m c t = Some (Err e, t'))))"
  using smtp_session.try_login_progress[OF assms] .

theorem try_login_outcomes_witness:
  "\<exists>t' cmd bs. try_login nom_ref script_ops base64_ref login_credentials [Plain, Login]
      (sample_transport {Authentication Login} True (login_answers_to [''Username:'', ''Password:''])) =
      Some (Ok (), t') \<and>
    auth_new Login login_credentials None = Inr cmd \<and> written (transport_stream t') = bs \<and>
    (prefix bs (auth_fmt base64_ref cmd) \<or> prefix (auth_fmt base64_ref cmd) bs)"
proof -
  let ?t = "sample_transport {Authentication Login} True (login_answers_to [''Username:'', ''Password:''])"
  obtain t' where t': "auth nom_ref script_ops base64_ref Login login_credentials ?t = Some (Ok accepted, t')"
    using scripted_login[OF login_two] by auto
  then have run: "try_login nom_ref script_ops base64_ref login_credentials [Plain, Login] ?t = Some (Ok (), t')"
    by (simp add: try_login_def supports_auth_mechanism_def bind_action_def return_action_def)
  from try_login_outcomes[OF script_session.smtp_session_axioms run] run show ?thesis
    by (auto simp: Cons_eq_append_conv)
qed

end
