(* ===== verification/Smtp_Tests.thy ===== *)
theory Smtp_Tests
  imports Smtp_Client
begin

text \<open>
  The unit tests of the repository, each translated to the conjunction of its assertions. They hold
  of the model: it gives the results the authors of the code expect of the code. The crates a test
  goes through are the executable instances of theories \<open>Nom\<close> and \<open>Base64\<close>; the
  \<open>Vec<u8>\<close> the codec test writes to is the scripted connection.
\<close>

section \<open>response.rs\<close>

definition is_ok :: "'e + 'a \<Rightarrow> bool" where
  "is_ok r = (case r of Inl _ \<Rightarrow> False | Inr _ \<Rightarrow> True)"

definition test_severity_fmt :: bool where
  "test_severity_fmt \<longleftrightarrow> severity_fmt PositiveCompletion = ''2''"

definition test_category_fmt :: bool where
  "test_category_fmt \<longleftrightarrow> category_fmt Unspecified4 = ''4''"

definition test_code_new :: bool where
  "test_code_new \<longleftrightarrow> code_new TransientNegativeCompletion Connections Zero =
     \<lparr>severity = TransientNegativeCompletion, category = Connections, detail = Zero\<rparr>"

definition test_code_display :: bool where
  "test_code_display \<longleftrightarrow>
     (let c = \<lparr>severity = TransientNegativeCompletion, category = Connections, detail = One\<rparr>
      in code_fmt c = ''421'')"

definition test_response_from_str :: bool where
  "test_response_from_str \<longleftrightarrow>
     (let raw_response = ''250-me'' @ crlf @ ''250-8BITMIME'' @ crlf @ ''250-SIZE 42'' @ crlf @
            ''250 AUTH PLAIN CRAM-MD5'' @ crlf;
          wrong_code = ''2506-me'' @ crlf @ ''250-8BITMIME'' @ crlf @ ''250-SIZE 42'' @ crlf @
            ''250 AUTH PLAIN CRAM-MD5'' @ crlf;
          wrong_end = ''250-me'' @ crlf @ ''250-8BITMIME'' @ crlf @ ''250-SIZE 42'' @ crlf @
            ''250-AUTH PLAIN CRAM-MD5'' @ crlf
      in response_from_str nom_ref raw_response = Inr
           \<lparr>code = \<lparr>severity = PositiveCompletion, category = MailSystem, detail = Zero\<rparr>,
            message = [''me'', ''8BITMIME'', ''SIZE 42'', ''AUTH PLAIN CRAM-MD5'']\<rparr>
         \<and> \<not> is_ok (response_from_str nom_ref wrong_code)
         \<and> \<not> is_ok (response_from_str nom_ref wrong_end))"

definition test_response_incomplete :: bool where
  "test_response_incomplete \<longleftrightarrow>
     (case parse_response nom_ref (''250-smtp.example.org'' @ crlf) of
        Inl (Incomplete _) \<Rightarrow> True
      | _ \<Rightarrow> False)"

definition test_response_is_positive :: bool where
  "test_response_is_positive \<longleftrightarrow>
     is_positive (response_new
       \<lparr>severity = PositiveCompletion, category = MailSystem, detail = Zero\<rparr>
       [''me'', ''8BITMIME'', ''SIZE 42'']) \<and>
     \<not> is_positive (response_new
       \<lparr>severity = TransientNegativeCompletion, category = MailSystem, detail = Zero\<rparr>
       [''me'', ''8BITMIME'', ''SIZE 42''])"

definition test_response_has_code :: bool where
  "test_response_has_code \<longleftrightarrow>
     has_code (response_new
       \<lparr>severity = TransientNegativeCompletion, category = MailSystem, detail = One\<rparr>
       [''me'', ''8BITMIME'', ''SIZE 42'']) 451 \<and>
     \<not> has_code (response_new
       \<lparr>severity = TransientNegativeCompletion, category = MailSystem, detail = One\<rparr>
       [''me'', ''8BITMIME'', ''SIZE 42'']) 251"

text \<open>The code of the responses in the next two tests.\<close>

definition test_code :: code where
  "test_code = \<lparr>severity = TransientNegativeCompletion, category = MailSystem, detail = One\<rparr>"

definition test_response_first_word :: bool where
  "test_response_first_word \<longleftrightarrow>
     first_word (response_new test_code [''me'', ''8BITMIME'', ''SIZE 42'']) = Some ''me'' \<and>
     first_word (response_new test_code [''me mo'', ''8BITMIME'', ''SIZE 42'']) = Some ''me'' \<and>
     first_word (response_new test_code []) = None \<and>
     first_word (response_new test_code ['' '']) = None \<and>
     first_word (response_new test_code [''  '']) = None \<and>
     first_word (response_new test_code [[]]) = None"

definition test_response_first_line :: bool where
  "test_response_first_line \<longleftrightarrow>
     first_line (response_new test_code [''me'', ''8BITMIME'', ''SIZE 42'']) = Some ''me'' \<and>
     first_line (response_new test_code [''me mo'', ''8BITMIME'', ''SIZE 42'']) = Some ''me mo'' \<and>
     first_line (response_new test_code []) = None \<and>
     first_line (response_new test_code ['' '']) = Some '' '' \<and>
     first_line (response_new test_code [''  '']) = Some ''  '' \<and>
     first_line (response_new test_code [[]]) = Some []"

lemma tests_response:
  "test_severity_fmt" "test_category_fmt" "test_code_new" "test_code_display" "test_response_is_positive"
  "test_response_has_code" "test_response_first_line"
  by code_simp+

lemma tests_response_words: "test_response_first_word"
  by code_simp

lemma tests_response_parser: "test_response_from_str" "test_response_incomplete"
  by code_simp+

section \<open>error.rs\<close>

definition test_error_response_to_string :: "foreign_display \<Rightarrow> bool" where
  "test_error_response_to_string D \<longleftrightarrow>
     (let err = Permanent (response_new (code_new PermanentNegativeCompletion Information Zero)
            [''gmx.net (mxgmx117) Nemesis ESMTP Service not available'',
             ''No SMTP service'',
             ''IP address is block listed.'',
             ''For explanation visit https://www.gmx.net/mail/senderguidelines?c=bl''])
      in error_fmt D err = ''permanent: gmx.net (mxgmx117) Nemesis ESMTP Service not available; No SMTP service; IP address is block listed.; For explanation visit https://www.gmx.net/mail/senderguidelines?c=bl'')"

lemma tests_error: "test_error_response_to_string D"
  by (simp add: test_error_response_to_string_def response_new_def response_detail_def)

section \<open>authentication.rs\<close>

definition test_plain :: bool where
  "test_plain \<longleftrightarrow>
     (let credentials = credentials_new ''username'' ''password''
      in mechanism_response Plain credentials None = Inr ([NUL] @ ''username'' @ [NUL] @ ''password'')
         \<and> \<not> is_ok (mechanism_response Plain credentials (Some ''test'')))"

definition test_login :: bool where
  "test_login \<longleftrightarrow>
     (let credentials = credentials_new ''alice'' ''wonderland''
      in mechanism_response Login credentials (Some ''Username'') = Inr ''alice''
         \<and> mechanism_response Login credentials (Some ''Password'') = Inr ''wonderland''
         \<and> \<not> is_ok (mechanism_response Login credentials None))"

definition test_xoauth2 :: bool where
  "test_xoauth2 \<longleftrightarrow>
     (let credentials = credentials_new ''username'' ''vF9dft4qmTc2Nvb3RlckBhdHRhdmlzdGEuY29tCg==''
      in mechanism_response Xoauth2 credentials None =
           Inr (''user=username'' @ [CHR 0x01] @ ''auth=Bearer vF9dft4qmTc2Nvb3RlckBhdHRhdmlzdGEuY29tCg=='' @
             [CHR 0x01, CHR 0x01])
         \<and> \<not> is_ok (mechanism_response Xoauth2 credentials (Some ''test'')))"

lemma tests_authentication: "test_plain" "test_login" "test_xoauth2"
  by code_simp+

section \<open>types.rs\<close>

definition test_email_address :: bool where
  "test_email_address \<longleftrightarrow>
     is_ok (email_address_new ''foobar@example.org'') \<and>
     is_ok (email_address_new ''foobar@localhost'') \<and>
     \<not> is_ok (email_address_new (''foo'' @ [CR] @ ''bar@localhost'')) \<and>
     is_ok (email_address_new ''foobar@localhost'') \<and>
     is_ok (email_address_new ''617b5772c6d10feda41fc6e0e43b976c4cc9383d3729310d3dc9e1332f0d9acd@yggmail'') \<and>
     \<not> is_ok (email_address_new ''>foobar@example.org'') \<and>
     \<not> is_ok (email_address_new ''foo bar@example.org'') \<and>
     \<not> is_ok (email_address_new (''foobar@exa'' @ crlf @ ''mple.org''))"

lemma tests_types: "test_email_address"
  by code_simp

section \<open>util.rs\<close>

text \<open>The texts of the test in UTF-8.\<close>

definition test_xtext :: bool where
  "test_xtext \<longleftrightarrow>
     (\<forall>(input, expect) \<in> set
        [(''bjorn'', ''bjorn''),
         (''bj'' @ [CHR 0xC3, CHR 0xB8] @ ''rn'', ''bj'' @ [CHR 0xC3, CHR 0xB8] @ ''rn''),
         ([CHR 0xC3, CHR 0x98] @ ''+= '' @
            [CHR 0xE2, CHR 0x9D, CHR 0xA4, CHR 0xEF, CHR 0xB8, CHR 0x8F, CHR 0xE2, CHR 0x80, CHR 0xB0],
          [CHR 0xC3, CHR 0x98] @ ''+2B+3D+20'' @
            [CHR 0xE2, CHR 0x9D, CHR 0xA4, CHR 0xEF, CHR 0xB8, CHR 0x8F, CHR 0xE2, CHR 0x80, CHR 0xB0]),
         (''+'', ''+2B'')].
      xtext_fmt input = Some expect)"

lemma tests_util: "test_xtext"
  by code_simp

section \<open>stream.rs\<close>

definition test_escape_crlf :: bool where
  "test_escape_crlf \<longleftrightarrow>
     escape_crlf crlf = ''<CRLF>'' \<and>
     escape_crlf (''EHLO my_name'' @ crlf) = ''EHLO my_name<CRLF>'' \<and>
     escape_crlf (''EHLO my_name'' @ crlf @ ''SIZE 42'' @ crlf) = ''EHLO my_name<CRLF>SIZE 42<CRLF>''"

lemma tests_stream: "test_escape_crlf"
  by code_simp

section \<open>codec.rs\<close>

definition test_codec :: bool where
  "test_codec \<longleftrightarrow>
     (case encode_frames script_ops client_codec_new
        [''test'' @ crlf, ''.'' @ crlf, crlf @ ''test'', ''te'' @ crlf @ ''.'' @ crlf @ ''st'', ''test'',
         ''test.'', ''test'' @ [LF], ''.test'' @ [LF], ''test''] (connect [] []) of
        (r, _, buf) \<Rightarrow> r = Some (Inr ()) \<and>
          written buf = ''test'' @ crlf @ ''..'' @ crlf @ crlf @ ''testte'' @ crlf @ ''..'' @ crlf @
            ''sttesttest.test'' @ [LF] @ ''.test'' @ [LF] @ ''test'')"

lemma tests_codec: "test_codec"
  by code_simp

section \<open>extension.rs\<close>

definition test_clientid_fmt :: bool where
  "test_clientid_fmt \<longleftrightarrow> client_id_fmt (client_id_new ''test'') = ''test''"

definition test_extension_fmt :: bool where
  "test_extension_fmt \<longleftrightarrow>
     extension_fmt Pipelining = ''PIPELINING'' \<and>
     extension_fmt EightBitMime = ''8BITMIME'' \<and>
     extension_fmt (Authentication Plain) = ''AUTH PLAIN''"

text \<open>\<open>HashSet::insert\<close> with its result: whether the element was new.\<close>

definition hash_insert :: "'a \<Rightarrow> 'a set \<Rightarrow> bool \<times> 'a set" where
  "hash_insert x s = (x \<notin> s, insert x s)"

definition test_serverinfo_fmt :: "(extension set \<Rightarrow> extension list) \<Rightarrow> bool" where
  "test_serverinfo_fmt iter \<longleftrightarrow>
     (let (fresh1, eightbitmime) = hash_insert EightBitMime {}; empty = {};
          (fresh2, plain) = hash_insert (Authentication Plain) {}
      in fresh1 \<and> fresh2
         \<and> server_info_fmt iter \<lparr>server_name = ''name'', features = eightbitmime\<rparr> = ''name with {EightBitMime}''
         \<and> server_info_fmt iter \<lparr>server_name = ''name'', features = empty\<rparr> = ''name with no supported features''
         \<and> server_info_fmt iter \<lparr>server_name = ''name'', features = plain\<rparr> = ''name with {Authentication(Plain)}'')"

definition test_serverinfo :: bool where
  "test_serverinfo \<longleftrightarrow>
     (let response = response_new (code_new PositiveCompletion Unspecified4 One)
            [''me'', ''8BITMIME'', ''SIZE 42''];
          (fresh1, features1) = hash_insert EightBitMime {};
          server_info = \<lparr>server_name = ''me'', features = features1\<rparr>;
          response2 = response_new (code_new PositiveCompletion Unspecified4 One)
            [''me'', ''AUTH PLAIN CRAM-MD5 XOAUTH2 OTHER'', ''8BITMIME'', ''SIZE 42''];
          (fresh2, features2) = hash_insert EightBitMime {};
          (fresh3, features2) = hash_insert (Authentication Plain) features2;
          (fresh4, features2) = hash_insert (Authentication Xoauth2) features2;
          server_info2 = \<lparr>server_name = ''me'', features = features2\<rparr>
      in fresh1 \<and> fresh2 \<and> fresh3 \<and> fresh4
         \<and> from_response response = Inr server_info
         \<and> supports_feature server_info EightBitMime
         \<and> \<not> supports_feature server_info StartTls
         \<and> from_response response2 = Inr server_info2
         \<and> supports_feature server_info2 EightBitMime
         \<and> supports_auth_mechanism server_info2 Plain
         \<and> \<not> supports_feature server_info2 StartTls)"

lemma tests_extension: "test_clientid_fmt" "test_extension_fmt"
  by code_simp+

lemma tests_server_info_fmt: "(\<And>x. iter {x} = [x]) \<Longrightarrow> test_serverinfo_fmt iter"
  by (simp add: test_serverinfo_fmt_def hash_insert_def server_info_fmt_def)

lemma test_words:
  "split_whitespace ''me'' = [''me'']" "split_whitespace ''8BITMIME'' = [''8BITMIME'']"
  "split_whitespace ''SIZE 42'' = [''SIZE'', ''42'']"
  "split_whitespace ''AUTH PLAIN CRAM-MD5 XOAUTH2 OTHER'' = [''AUTH'', ''PLAIN'', ''CRAM-MD5'', ''XOAUTH2'', ''OTHER'']"
  by code_simp+

lemma tests_server_info: "test_serverinfo"
  by (simp add: test_serverinfo_def Let_def hash_insert_def response_new_def from_response_def first_word_def test_words
      line_features_def supports_feature_def supports_auth_mechanism_def insert_commute)

section \<open>commands.rs\<close>

text \<open>\<open>unwrap\<close> is \<open>projr\<close> here: the assertions after it would not be reached on an error.\<close>

definition test_display :: bool where
  "test_display \<longleftrightarrow>
     (let id1 = Domain ''localhost'';
          id_ipv4 = Ipv4 (Ipv4Addr 127 0 0 1);
          email = projr (email_address_new ''test@example.com'');
          mail_parameter = OtherParam ''TEST'' (Some ''value'');
          rcpt_parameter = RcptOther ''TEST'' (Some ''value'');
          credentials = credentials_new ''user'' ''password''
      in is_ok (email_address_new ''test@example.com'')
         \<and> ehlo_fmt (ehlo_new id1) = ''EHLO localhost'' @ crlf
         \<and> ehlo_fmt (ehlo_new id_ipv4) = ''EHLO [127.0.0.1]'' @ crlf
         \<and> mail_fmt (mail_new (Some email) []) = Some (''MAIL FROM:<test@example.com>'' @ crlf)
         \<and> mail_fmt (mail_new None []) = Some (''MAIL FROM:<>'' @ crlf)
         \<and> mail_fmt (mail_new (Some email) [SizeParam 42]) =
             Some (''MAIL FROM:<test@example.com> SIZE=42'' @ crlf)
         \<and> mail_fmt (mail_new (Some email) [SizeParam 42, Body BodyEightBitMime, mail_parameter]) =
             Some (''MAIL FROM:<test@example.com> SIZE=42 BODY=8BITMIME TEST=value'' @ crlf)
         \<and> rcpt_fmt (rcpt_new email []) = Some (''RCPT TO:<test@example.com>'' @ crlf)
         \<and> rcpt_fmt (rcpt_new email [rcpt_parameter]) = Some (''RCPT TO:<test@example.com> TEST=value'' @ crlf)
         \<and> quit_fmt QuitCommand = ''QUIT'' @ crlf
         \<and> data_fmt DataCommand = ''DATA'' @ crlf
         \<and> noop_fmt NoopCommand = ''NOOP'' @ crlf
         \<and> help_fmt (help_new None) = ''HELP'' @ crlf
         \<and> help_fmt (help_new (Some ''test'')) = ''HELP test'' @ crlf
         \<and> vrfy_fmt (vrfy_new ''test'') = ''VRFY test'' @ crlf
         \<and> expn_fmt (expn_new ''test'') = ''EXPN test'' @ crlf
         \<and> rset_fmt RsetCommand = ''RSET'' @ crlf
         \<and> map_sum id (auth_fmt base64_ref) (auth_new Plain credentials None) =
             Inr (''AUTH PLAIN AHVzZXIAcGFzc3dvcmQ='' @ crlf)
         \<and> map_sum id (auth_fmt base64_ref) (auth_new Login credentials None) =
             Inr (''AUTH LOGIN'' @ crlf))"

lemma tests_commands: "test_display"
  by code_simp

section \<open>All of them\<close>

text \<open>
  Every assertion of every unit test holds, whatever the order a set is iterated in and however
  foreign errors are displayed.
\<close>

lemma unit_tests_hold:
  assumes "\<And>x. iter {x} = [x]"
  shows "test_severity_fmt \<and> test_category_fmt \<and> test_code_new \<and> test_code_display \<and>
      test_response_from_str \<and> test_response_incomplete \<and> test_response_is_positive \<and>
      test_response_has_code \<and> test_response_first_word \<and> test_response_first_line"
    and "test_error_response_to_string D" and "test_plain \<and> test_login \<and> test_xoauth2"
    and "test_email_address" and "test_xtext" and "test_escape_crlf" and "test_codec"
    and "test_clientid_fmt \<and> test_extension_fmt \<and> test_serverinfo_fmt iter \<and> test_serverinfo"
    and "test_display"
  using tests_response tests_response_words tests_response_parser tests_error tests_authentication tests_types
    tests_util tests_stream tests_codec tests_extension tests_server_info_fmt[OF assms] tests_server_info
    tests_commands by blast+

end
