(* ===== verification/Smtp_Example.thy ===== *)
theory Smtp_Example
  imports Smtp_Session
begin

text \<open>
  \<open>examples/send.rs\<close>: \<open>connected\<close> is what \<open>TcpStream::connect\<close> gives. Its errors are
  boxed, whichever library they come from; \<open>unwrap\<close> is a panic on an error. The result is the
  outcome and the stream it leaves, if there is one.
\<close>

datatype boxed_error = BoxedIo io_error | BoxedSmtp error | BoxedAnyhow anyhow_error

datatype main_outcome = MainOk | MainErr boxed_error | MainPanic

definition example_mail :: "main_outcome + 'r sendable_email" where
  "example_mail =
     (case email_address_from_str ''user@localhost'' of Inl _ \<Rightarrow> Inl MainPanic | Inr sender \<Rightarrow>
     (case email_address_from_str ''root@localhost'' of Inl _ \<Rightarrow> Inl MainPanic | Inr recipient \<Rightarrow>
     (case envelope_new (Some sender) [recipient] of Inl e \<Rightarrow> Inl (MainErr (BoxedAnyhow e)) | Inr envelope \<Rightarrow>
        Inr (sendable_email_new envelope ''Hello world''))))"

definition main_result :: "'a outcome \<Rightarrow> main_outcome" where
  "main_result o1 = (case o1 of Ok _ \<Rightarrow> MainOk | Err e \<Rightarrow> MainErr (BoxedSmtp e) | Panic \<Rightarrow> MainPanic)"

definition example_main :: "bool \<Rightarrow> nom_lib \<Rightarrow> 's stream_ops \<Rightarrow> 'r read_lib \<Rightarrow> io_error + 's
    \<Rightarrow> (main_outcome \<times> 's option) option" where
  "example_main oc N W R connected =
     (case connected of
        Inl e \<Rightarrow> Some (MainErr (BoxedIo e), None)
      | Inr stream \<Rightarrow>
         (case transport_new N W smtp_client_new stream of
            None \<Rightarrow> None
          | Some (o1, stream) \<Rightarrow>
             (case o1 of
                Ok transport \<Rightarrow>
                 (case example_mail of
                    Inl r \<Rightarrow> Some (r, Some (transport_stream transport))
                  | Inr email \<Rightarrow>
                     (case send oc N W R email transport of
                        None \<Rightarrow> None
                      | Some (o2, transport) \<Rightarrow> Some (main_result o2, Some (transport_stream transport))))
              | Err e \<Rightarrow> Some (MainErr (BoxedSmtp e), Some stream)
              | Panic \<Rightarrow> Some (MainPanic, Some stream))))"

definition example_envelope :: envelope where
  "example_envelope = \<lparr>forward_path = [EmailAddress ''root@localhost''],
     reverse_path = Some (EmailAddress ''user@localhost'')\<rparr>"

lemma example_mail_eq: "example_mail = Inr (sendable_email_new example_envelope ''Hello world'')"
proof -
  have "email_address_from_str ''user@localhost'' = Inr (EmailAddress ''user@localhost'')"
    "email_address_from_str ''root@localhost'' = Inr (EmailAddress ''root@localhost'')"
    by code_simp+
  then show ?thesis by (simp add: example_mail_def envelope_new_def example_envelope_def)
qed

lemma example_envelope_simps [simp]:
  "envelope_ok example_envelope" "countable_envelope example_envelope"
  "length (forward_path example_envelope) = Suc 0"
  by (simp_all add: example_envelope_def envelope_ok_def email_ok_iff graphic_def countable_envelope_def)

lemma client_id_localhost: "client_id_fmt client_id_default = ''[127.0.0.1]''"
  by code_simp

text \<open>
  C19: the example, whatever server it talks to: if it ends well, it has greeted the server and the
  server has been given one mail, with the lines of its envelope and the text of its body, and the
  example has read one positive reply for the greeting and for each of the five things it sent.
\<close>

theorem example_delivers:
  assumes "mail_session W sent received N R" and "example_main oc N W R (Inr s) = Some (MainOk, Some s')"
  shows "\<exists>bs rs opts. sent s' = sent s @ bs \<and>
    peer bs = CommandLine ''EHLO [127.0.0.1]'' # mail_events opts example_envelope ''Hello world'' \<and>
    length rs = 6 \<and> (\<forall>r \<in> set rs. positive_reply r) \<and> received s' = received s @ replies_string rs"
proof -
  have sess: "smtp_session W sent received N" using assms(1) by (rule mail_session.axioms)
  obtain t s1 r t' where new: "transport_new N W smtp_client_new s = Some (Ok t, s1)"
    and snd: "send oc N W R (sendable_email_new example_envelope ''Hello world'') t = Some (Ok r, t')"
    and s': "s' = transport_stream t'"
    using assms(2)
    by (auto simp: example_main_def example_mail_eq main_result_def split: option.splits outcome.splits)
  have one: "sends oc N W R t [(example_envelope, ''Hello world'')] t'"
    using snd by (blast intro: sends_mail sends_none)
  have good: "\<forall>mail \<in> set [(example_envelope, ''Hello world'')]. good_mail mail"
    by (simp add: good_mail_def plain_message_def)
  note hello = smtp_session.transport_new_Ok[OF sess new]
  obtain g r1 where g: "length g = 1" "\<forall>x \<in> set (g @ [r1]). positive_reply x"
    "received s1 = received s @ replies_string (g @ [r1])"
    using hello(4) unfolding smtp_client_new_def by (simp only: smtp_client.simps if_True) blast
  let ?hello = "''EHLO [127.0.0.1]'' @ crlf" and ?mail = "mail_text (mail_options t) (example_envelope, ''Hello world'')"
  have sent1: "sent s1 = sent s @ ?hello"
    using hello(3) client_id_localhost by (simp add: smtp_client_new_def)
  have c: "\<forall>mail \<in> set [(example_envelope, ''Hello world'')]. countable_envelope (fst mail)" by simp
  note wire = mail_session.sends_wire[OF assms(1) one c]
  obtain rs2 where rs2: "length rs2 = 4" "\<forall>x \<in> set rs2. positive_reply x"
    "received s' = received s1 @ replies_string rs2"
    using wire(2) s' hello(2) by auto
  have "sent s' = sent s @ ?hello @ ?mail" using wire(1) s' hello(2) sent1 by simp
  moreover have "peer (?hello @ ?mail) =
      CommandLine ''EHLO [127.0.0.1]'' # mail_events (mail_options t) example_envelope ''Hello world''"
    using peer_line[of "''EHLO [127.0.0.1]''" ?mail] peer_mails[OF good, of t "[]"] by simp
  ultimately show ?thesis
    using g rs2
    by (intro exI[of _ "?hello @ ?mail"] exI[of _ "(g @ [r1]) @ rs2"] exI[of _ "mail_options t"]) auto
qed

lemma example_runs:
  "\<exists>s'. example_main oc nom_ref script_ops read_ref
      (Inr (connect (reply_string accepted) (replicate 5 (reply_string accepted)))) = Some (MainOk, Some s')"
proof -
  let ?s = "connect (reply_string accepted) (replicate 5 (reply_string accepted))"
  let ?ehlo = "Some (ehlo_fmt (ehlo_new (client_id_new (client_id_fmt client_id_default))))"
  obtain s1 where s1: "read_response nom_ref script_ops ?s = Some (Ok accepted, s1)" "inbox s1 = []"
    "reactions s1 = replicate 5 (reply_string accepted)"
    using script_session.yields_read_response[OF accepted_reply(2), of ?s "[]"]
    by (auto simp: script_session.yields_def reply_result_def accepted_reply(3))
  obtain s2 where s2: "command nom_ref script_ops ?ehlo s1 = Some (Ok accepted, s2)" "inbox s2 = []"
    "reactions s2 = replicate 4 (reply_string accepted)"
    by (rule script_session.command_live[OF accepted_reply(2,3), of s1 "replicate 4 (reply_string accepted)"])
      (use s1 in \<open>auto simp: numeral_eq_Suc\<close>)
  let ?t = "\<lparr>transport_server = \<lparr>server_name = ''OK'', features = {}\<rparr>,
    transport_client = smtp_client_new, transport_stream = s2\<rparr>"
  have "split_whitespace ''OK'' = [''OK'']" by code_simp
  then have "from_response accepted = Inr \<lparr>server_name = ''OK'', features = {}\<rparr>"
    by (simp add: from_response_def first_word_def accepted_def line_features_def)
  then have new: "transport_new nom_ref script_ops smtp_client_new ?s = Some (Ok ?t, s2)"
    using s1(1) s2(1)
    by (simp add: transport_new_def stream_new_def read_greeting_def smtp_client_new_def ehlo_def
        lift_result_def bind_action_def return_action_def)
  let ?email = "sendable_email_new example_envelope ''Hello world'' :: byte list sendable_email"
  have "\<exists>t'. send oc nom_ref script_ops read_ref ?email ?t = Some (reply_result accepted, t') \<and>
      inbox (transport_stream t') = [] \<and> reactions (transport_stream t') = []"
  proof (rule script_session.send_live_positive[where bs = "''Hello world''" and r = accepted
        and rs = "replicate 3 accepted"])
    show "read_to_end read_ref (message_poll_read read_ref) (email_message ?email) = Some (Inr ''Hello world'')"
      by (rule ref_read.read_to_end_bytes)
    show "reactions (transport_stream ?t) = map reply_string (replicate 3 accepted @ [accepted]) @ []"
      using s2(3) by (simp add: numeral_eq_Suc)
  qed (use s2 accepted_reply in \<open>auto simp: sendable_email_new_def\<close>)
  then show ?thesis
    using new by (auto simp: example_main_def example_mail_eq main_result_def reply_result_def accepted_reply(3))
qed

theorem example_delivers_witness:
  "\<exists>s' bs rs opts. example_main True nom_ref script_ops read_ref
      (Inr (connect (reply_string accepted) (replicate 5 (reply_string accepted)))) = Some (MainOk, Some s') \<and>
    written s' = bs \<and> length rs = 6 \<and> got s' = replies_string rs \<and>
    peer bs = CommandLine ''EHLO [127.0.0.1]'' # mail_events opts example_envelope ''Hello world''"
proof -
  obtain s' where s': "example_main True nom_ref script_ops read_ref
      (Inr (connect (reply_string accepted) (replicate 5 (reply_string accepted)))) = Some (MainOk, Some s')"
    using example_runs by blast
  from example_delivers[OF script_mail.mail_session_axioms s'] s' show ?thesis by auto
qed

end
