(* ===== verification/Spec2Isabelle.thy ===== *)
theory Spec2Isabelle
  imports Smtp_Session Smtp_Tests Smtp_Example
begin

text \<open>
  A model of async-smtp, an asynchronous SMTP client, and the theorems that make it correct.

  The program. \<open>SmtpTransport\<close> (\<open>src/smtp_client.rs\<close>) is the interface: it greets a server,
  logs in, starts TLS and sends mails. It keeps what the server has announced and the client's
  configuration, and does everything through \<open>SmtpStream\<close> (\<open>src/stream.rs\<close>), which writes
  commands and bodies to a connection and reads replies from it. A command
  (\<open>src/commands.rs\<close>) is a value that is displayed; its parts are addresses
  (\<open>src/types.rs\<close>), parameters and client identifiers (\<open>src/extension.rs\<close>), values in xtext
  (\<open>src/util.rs\<close>) and answers of authentication mechanisms (\<open>src/authentication.rs\<close>). A body
  goes through \<open>ClientCodec\<close> (\<open>src/codec.rs\<close>), which doubles dots. A reply is parsed by
  \<open>src/response.rs\<close>; a negative one becomes an error (\<open>src/error.rs\<close>).

  The theories, in the order of the imports.

  \<^item> \<open>Smtp_Prelude\<close>: bytes, CRLF, decimal and hexadecimal numerals, UTF-8, words; the peer's splitting
    at CRLFs (\<open>crlf_lines\<close>). A Rust \<open>String\<close> is the list of its UTF-8 bytes.
  \<^item> \<open>Nom\<close>: the parser combinators of the crate \<open>nom\<close>, which is not part of the repository: laws
    that state what its documentation promises, and an executable instance.
  \<^item> \<open>Smtp_Response\<close> (\<open>response.rs\<close>): codes, responses, \<open>parse_response\<close>; the grammar of replies
    (\<open>raw_reply\<close>, \<open>reply_string\<close>) and, in the locale \<open>nom_api\<close>, the exact behaviour of the parser on
    every input: a reply, a proper prefix of one, mixed codes, or an error.
  \<^item> \<open>Base64\<close>: the crate \<open>base64\<close> as a locale \<open>base64_api\<close> and a codec of RFC 4648 that satisfies it.
  \<^item> \<open>Smtp_Error\<close> (\<open>error.rs\<close>): errors, conversions, and the outcome type of the asynchronous
    operations, a value, an error or a panic.
  \<^item> \<open>Smtp_Util\<close> (\<open>util.rs\<close>): \<open>XText\<close> as a loop over slices, its character-wise specification and a
    decoder.
  \<^item> \<open>Smtp_Authentication\<close> (\<open>authentication.rs\<close>): the mechanisms, with their contract \<open>sasl_mechanism\<close>.
  \<^item> \<open>Rust_Net\<close>: the display of IP addresses, from the standard library.
  \<^item> \<open>Smtp_Extension\<close> (\<open>extension.rs\<close>): client identifiers, server information, parameters.
  \<^item> \<open>Smtp_Types\<close> (\<open>types.rs\<close>): addresses, envelopes, bodies and how they are read (\<open>read_api\<close>).
  \<^item> \<open>Smtp_Commands\<close> (\<open>commands.rs\<close>): every command; the contract \<open>smtp_command\<close> (one command is one
    line), interpreted for each of them.
  \<^item> \<open>Async_Io\<close>: the connection. Its state is abstract; three operations read a line, write and flush.
    The locales \<open>writer\<close>, \<open>smtp_wire\<close> and \<open>live_wire\<close> state their laws in terms of the bytes sent, the
    bytes received and, for a connection that does not fail, what the peer answers. An operation is
    an \<open>action\<close>: \<open>None\<close> if it does not return, otherwise its outcome and the state it leaves;
    \<open>bind_action\<close> is the sequencing with a question mark.
  \<^item> \<open>Smtp_Codec\<close> (\<open>codec.rs\<close>): \<open>encode\<close> with its counter, slices and writes, the byte-wise encoding
    \<open>stuff\<close> it implements, the line-wise encoding \<open>rfc_stuff\<close> of the standard, a receiver
    (\<open>receive_data\<close>), and the messages for which they agree.
  \<^item> \<open>Smtp_Stream\<close> (\<open>stream.rs\<close>): all operations of the stream. \<open>exchange m T V\<close> says what an action
    sends and reads; \<open>yields\<close> says that it returns and what is left to read.
  \<^item> \<open>Smtp_Client\<close> (\<open>smtp_client.rs\<close>): configuration, connecting, login, STARTTLS and \<open>send\<close> in its
    two modes, both shown to be a list of lines sent one way or the other.
  \<^item> \<open>Smtp_Session\<close>: the peer's reading of a whole session, sequences of mails (\<open>sends\<close>), and any
    sequence of operations on a transport, successful or not (\<open>trace\<close>).
  \<^item> \<open>Smtp_Tests\<close>: the unit tests of the repository, which hold of the model, and \<open>Smtp_Example\<close>:
    the program \<open>examples/send.rs\<close>.

  What is shown. Safety of the wire: what \<open>send\<close> writes, exactly, in both modes; that no part of a body
  is written before every line has been answered positively; that addresses, parameters and
  credentials cannot end a line, while the keyword of a parameter and the argument of VRFY, EXPN, HELP
  and EHLO can; that a receiver sees exactly the mails that were sent, for the bodies the encoder is
  transparent for. Replies: the
  parser is exact and streams, a read consumes one reply and no more, and client and server stay in
  step. Termination and liveness: reading ends with the reply, \<open>send\<close> and \<open>auth\<close> return when the
  peer answers. Errors: each branch has its value, no operation panics. Some theorems state
  behaviour the standard does not allow: a dot at the start of a message, or after CR CR LF, is not
  doubled; an empty message is ended twice; xtext writes one digit for small characters and leaves
  bytes from 0x7F on as they are; ten challenges are an error even if the login succeeded; a pipelined \<open>send\<close> that fails leaves replies
  unread.

  Parameters and hypotheses. The crates \<open>nom\<close> and \<open>base64\<close>, the runtime's stream and reader, the host
  name and the iteration order of a hash set, and whether overflow checks are on, are arguments of the definitions. The hypotheses about
  them are the locale predicates \<open>nom_api\<close> (part of \<open>smtp_session\<close>), \<open>base64_api\<close>, \<open>read_api\<close>, \<open>writer\<close>,
  \<open>smtp_wire\<close> and \<open>live_wire\<close>; each has an executable instance, which the witnesses use.

  Bounds. \<open>u8\<close> and \<open>u16\<close> are words; the counter of the pipelined mode is an \<open>i32\<close>, a signed word of
  32 bits. The argument \<open>oc\<close> of \<open>send\<close> says whether the build checks overflows: if so, its overflow
  is a panic, otherwise it wraps to a negative count and no reply is read (\<open>send_pipelined_wrap\<close>).
  Both are excluded by \<open>countable_envelope\<close>, fewer than \<open>2 ^ 31 - 2\<close> recipients; no other bound is
  needed. A reader of a body that stays pending for ever is \<open>None\<close>, and so is \<open>message\<close> then. There is no fuel: the loop that
  reads a reply may run for ever and is a partial function, the loop of \<open>auth\<close> is structural in its
  counter of ten.

  Not modelled: logging, cancellation of a future, \<open>Pin\<close> and the unsafe cast of \<open>poll_read\<close>, timeouts
  (no code of the crate sets one), and the crate root \<open>src/lib.rs\<close>, which only declares modules and
  a macro for the tests.
\<close>

section \<open>Properties of whole sessions\<close>

text \<open>
  C1: several mails over one connection. Let each mail have addresses that \<open>EmailAddress::new\<close>
  accepts, fewer than \<open>2 ^ 31 - 2\<close> recipients, and a body that is not empty, does not begin with a
  dot and holds no CR CR. Then, whatever the mode, after any sequence of successful calls
  of \<open>send\<close> a receiver of RFC 5321 that reads the bytes the client has written sees exactly these
  mails in order, each as its MAIL line, its RCPT lines, DATA and its body, and nothing else:
  neither an address nor such a body can add or hide a command. Without
  the conditions on the body it can fail: an empty body, one that begins with a line of one dot, and
  one with such a line after CR CR LF are the subject of theorems below and in \<open>Smtp_Stream\<close>.
\<close>

theorem session_peer_view:
  assumes "mail_session W sent received N R" and "sends oc N W R t mails t'"
    and "\<forall>mail \<in> set mails. good_mail mail"
  shows "\<exists>bs. sent (transport_stream t') = sent (transport_stream t) @ bs \<and>
    peer bs = concat (map (\<lambda>(e, m). mail_events (mail_options t) e m) mails)"
proof -
  have "\<forall>mail \<in> set mails. countable_envelope (fst mail)" using assms(3) by (simp add: good_mail_def)
  from mail_session.sends_wire(1)[OF assms(1,2) this] peer_mails[OF assms(3), of t "[]"]
  show ?thesis by simp
qed

lemma scripted_session:
  "\<exists>t'. sends oc nom_ref script_ops read_ref
      (sample_transport {Pipelining} pipe (replicate 4 (reply_string accepted))) [(sample_envelope, m)] t'"
  using scripted_send[where m = m and fs = "{Pipelining}" and pipe = pipe] unfolding sample_email_def
  by (blast intro: sends_mail sends_none)

theorem session_peer_view_witness:
  "\<exists>t'. sends True nom_ref script_ops read_ref
      (sample_transport {Pipelining} True (replicate 4 (reply_string accepted))) [(sample_envelope, ''hi'')] t' \<and>
    peer (written (transport_stream t')) =
      [CommandLine ''MAIL FROM:<a@x.org>'', CommandLine ''RCPT TO:<b@y.org>'', CommandLine ''DATA'',
       MailData (''hi'' @ crlf)]"
proof -
  obtain t' where t': "sends True nom_ref script_ops read_ref
      (sample_transport {Pipelining} True (replicate 4 (reply_string accepted))) [(sample_envelope, ''hi'')] t'"
    using scripted_session by blast
  have "\<forall>mail \<in> set [(sample_envelope, ''hi'')]. good_mail mail"
    by (simp add: good_mail_def plain_message_def)
  from session_peer_view[OF script_mail.mail_session_axioms t' this] t'
  show ?thesis
    by (auto simp: mail_events_def sample_lines)
qed

text \<open>
  C20: over the same sequence the client and the peer stay in step: the client has read exactly as many
  replies as it has written commands and bodies, all of them positive.
\<close>

theorem session_in_step:
  assumes "mail_session W sent received N R" and "sends oc N W R t mails t'"
    and "\<forall>mail \<in> set mails. countable_envelope (fst mail)"
  shows "\<exists>rs. length rs = (\<Sum>mail \<leftarrow> mails. length (forward_path (fst mail)) + 3) \<and>
    (\<forall>r \<in> set rs. positive_reply r) \<and>
    received (transport_stream t') = received (transport_stream t) @ replies_string rs"
  using mail_session.sends_wire(2)[OF assms] .

theorem session_in_step_witness:
  "\<exists>t' rs. sends True nom_ref script_ops read_ref
      (sample_transport {Pipelining} False (replicate 4 (reply_string accepted))) [(sample_envelope, ''hi'')] t' \<and>
    length rs = 4 \<and> got (transport_stream t') = replies_string rs"
proof -
  obtain t' where t': "sends True nom_ref script_ops read_ref
      (sample_transport {Pipelining} False (replicate 4 (reply_string accepted))) [(sample_envelope, ''hi'')] t'"
    using scripted_session by blast
  from session_in_step[OF script_mail.mail_session_axioms t'] t' show ?thesis
    by (auto simp: numeral_eq_Suc)
qed

text \<open>
  C29: an empty message puts them out of step: the encoder and the stream both write the mark that
  ends the data, and the peer reads the second one as two command lines, an empty one and a dot.
\<close>

theorem empty_message_extra_commands:
  assumes "mail_session W sent received N R" and "envelope_ok e" and "countable_envelope e"
    and "send oc N W R (sendable_email_new e []) t = Some (Ok r, t')"
  shows "\<exists>bs. sent (transport_stream t') = sent (transport_stream t) @ bs \<and>
    peer bs = mail_events (mail_options t) e [] @ [CommandLine [], CommandLine ''.'']"
proof -
  have "sends oc N W R t [(e, [])] t'" using assms(4) by (blast intro: sends_mail sends_none)
  with mail_session.sends_wire(1)[OF assms(1) this] assms(3) peer_empty_mail[OF assms(2), of t "[]"]
  show ?thesis by simp
qed

theorem empty_message_extra_commands_witness:
  "\<exists>t'. send True nom_ref script_ops read_ref (sendable_email_new sample_envelope [])
      (sample_transport {} True (replicate 4 (reply_string accepted))) = Some (Ok accepted, t') \<and>
    peer (written (transport_stream t')) =
      [CommandLine ''MAIL FROM:<a@x.org>'', CommandLine ''RCPT TO:<b@y.org>'', CommandLine ''DATA'',
       MailData crlf, CommandLine [], CommandLine ''.'']"
proof -
  obtain t' where t': "send True nom_ref script_ops read_ref (sendable_email_new sample_envelope [])
      (sample_transport {} True (replicate 4 (reply_string accepted))) = Some (Ok accepted, t')"
    using scripted_send[where m = "[]"] unfolding sample_email_def by blast
  from empty_message_extra_commands[OF script_mail.mail_session_axioms _ _ t'] t'
  show ?thesis
    by (auto simp: mail_events_def sample_lines)
qed

end
